theory Spec2Isabelle
  imports Complex_Main "HOL-Library.Word" "HOL-Library.Log_Nat"
begin

section \<open>Data model\<close>

text \<open>
  Go's \<open>int\<close> (64 bits on the targets of this repository) and \<open>time.Duration\<close>
  (an \<open>int64\<close> of nanoseconds) are 64-bit words: \<open>+\<close> and \<open>*\<close> wrap around, and
  the comparisons of the source are the signed ones (\<open>\<le>s\<close>, \<open><s\<close>).
  A \<open>time.Time\<close> is the reading of the clock in nanoseconds, an unbounded integer;
  the zero \<open>time.Time\<close> of a fresh struct is the reading \<open>0\<close>.
\<close>

type_synonym goint = "64 word"
type_synonym Duration = "64 word"
type_synonym Time = int

text \<open>\<open>models.CircuitBreakerState\<close> (domain/models/retry.go): the three constants.\<close>

datatype CircuitBreakerState =
  CircuitBreakerClosed | CircuitBreakerOpen | CircuitBreakerHalfOpen

text \<open>\<open>circuitState\<close> (infrastructure/circuit_breaker.go).\<close>

record circuitState =
  state :: CircuitBreakerState
  failureCount :: goint
  lastFailureTime :: Time
  openedAt :: Time
  halfOpenSuccessCount :: goint
  halfOpenAttempts :: goint

text \<open>
  \<open>CircuitBreaker\<close>: the map from endpoint to its record and the configuration. The
  mutex makes every operation atomic, so an operation is a function from the breaker
  to its result and the updated breaker. Each pointer in the map is created by the
  operation that inserts it and stored under one key only, so the map holds the records
  themselves.
\<close>

record CircuitBreaker =
  circuits :: "string \<rightharpoonup> circuitState"
  threshold :: goint
  timeout :: Duration
  halfOpenRequests :: goint

text \<open>The struct literal \<open>&circuitState{state: models.CircuitBreakerClosed}\<close>.\<close>

definition newCircuit :: circuitState where
  "newCircuit =
     \<lparr>state = CircuitBreakerClosed, failureCount = 0, lastFailureTime = 0, openedAt = 0,
      halfOpenSuccessCount = 0, halfOpenAttempts = 0\<rparr>"

definition NewCircuitBreaker :: "goint \<Rightarrow> Duration \<Rightarrow> goint \<Rightarrow> CircuitBreaker" where
  "NewCircuitBreaker thr tmo hor =
     \<lparr>circuits = Map.empty, threshold = thr, timeout = tmo, halfOpenRequests = hor\<rparr>"

text \<open>
  \<open>time.Since(t)\<close> is \<open>time.Now().Sub(t)\<close>: the difference of the two readings,
  saturated to the range of \<open>Duration\<close>. The reading of \<open>time.Now()\<close> is the argument
  \<open>now\<close> of every operation that reads the clock.
\<close>

definition maxDuration :: int where
  "maxDuration = 2 ^ 63 - 1"

definition minDuration :: int where
  "minDuration = - (2 ^ 63)"

definition Since :: "Time \<Rightarrow> Time \<Rightarrow> Duration" where
  "Since now t =
     (let d = now - t in
      if d > maxDuration then word_of_int maxDuration
      else if d < minDuration then word_of_int minDuration
      else word_of_int d)"

section \<open>Circuit breaker operations\<close>

definition IsOpen :: "CircuitBreaker \<Rightarrow> Time \<Rightarrow> string \<Rightarrow> bool" where
  "IsOpen cb now endpoint =
     (case circuits cb endpoint of
        None \<Rightarrow> False
      | Some circuit \<Rightarrow>
          if state circuit = CircuitBreakerOpen then
            (if timeout cb \<le>s Since now (openedAt circuit) then False else True)
          else False)"

text \<open>
  \<open>CanAttempt\<close> on the record of an existing key: the transition from open to
  half-open, then the half-open budget. The result is the returned flag and the record
  as the call leaves it.
\<close>

definition canAttemptCircuit ::
  "CircuitBreaker \<Rightarrow> Time \<Rightarrow> circuitState \<Rightarrow> bool \<times> circuitState" where
  "canAttemptCircuit cb now circuit =
     (if state circuit = CircuitBreakerOpen
         \<and> \<not> timeout cb \<le>s Since now (openedAt circuit)
      then (False, circuit)
      else
        let circuit1 =
              (if state circuit = CircuitBreakerOpen
               then circuit\<lparr>state := CircuitBreakerHalfOpen,
                            halfOpenAttempts := 0,
                            halfOpenSuccessCount := 0\<rparr>
               else circuit)
        in if state circuit1 = CircuitBreakerHalfOpen then
             (if halfOpenRequests cb \<le>s halfOpenAttempts circuit1 then (False, circuit1)
              else (True, circuit1\<lparr>halfOpenAttempts := halfOpenAttempts circuit1 + 1\<rparr>))
           else (True, circuit1))"

definition CanAttempt :: "CircuitBreaker \<Rightarrow> Time \<Rightarrow> string \<Rightarrow> bool \<times> CircuitBreaker" where
  "CanAttempt cb now endpoint =
     (case circuits cb endpoint of
        None \<Rightarrow> (True, cb\<lparr>circuits := (circuits cb)(endpoint \<mapsto> newCircuit)\<rparr>)
      | Some circuit \<Rightarrow>
          (let (ok, circuit') = canAttemptCircuit cb now circuit
           in (ok, cb\<lparr>circuits := (circuits cb)(endpoint \<mapsto> circuit')\<rparr>)))"

definition recordSuccessCircuit :: "CircuitBreaker \<Rightarrow> circuitState \<Rightarrow> circuitState" where
  "recordSuccessCircuit cb circuit =
     (if state circuit = CircuitBreakerHalfOpen then
        (let circuit1 = circuit\<lparr>halfOpenSuccessCount := halfOpenSuccessCount circuit + 1\<rparr>
         in if halfOpenRequests cb \<le>s halfOpenSuccessCount circuit1
            then circuit1\<lparr>state := CircuitBreakerClosed, failureCount := 0\<rparr>
            else circuit1)
      else if state circuit = CircuitBreakerClosed then circuit\<lparr>failureCount := 0\<rparr>
      else circuit)"

definition RecordSuccess :: "CircuitBreaker \<Rightarrow> string \<Rightarrow> CircuitBreaker" where
  "RecordSuccess cb endpoint =
     (case circuits cb endpoint of
        None \<Rightarrow> cb
      | Some circuit \<Rightarrow>
          cb\<lparr>circuits := (circuits cb)(endpoint \<mapsto> recordSuccessCircuit cb circuit)\<rparr>)"

text \<open>
  \<open>RecordFailure\<close> reads the clock twice: \<open>now\<close> is the reading stored in
  \<open>lastFailureTime\<close>, \<open>now'\<close> the later reading stored in \<open>openedAt\<close> by whichever
  of the two transitions fires (at most one does: the first leaves the record open, which
  the second does not match).
\<close>

definition recordFailureCircuit ::
  "CircuitBreaker \<Rightarrow> Time \<Rightarrow> Time \<Rightarrow> circuitState \<Rightarrow> circuitState" where
  "recordFailureCircuit cb now now' circuit =
     (let circuit1 = circuit\<lparr>failureCount := failureCount circuit + 1,
                             lastFailureTime := now\<rparr>;
          circuit2 =
            (if state circuit1 = CircuitBreakerClosed
                \<and> threshold cb \<le>s failureCount circuit1
             then circuit1\<lparr>state := CircuitBreakerOpen, openedAt := now'\<rparr>
             else circuit1)
      in if state circuit2 = CircuitBreakerHalfOpen
         then circuit2\<lparr>state := CircuitBreakerOpen, openedAt := now',
                       halfOpenAttempts := 0, halfOpenSuccessCount := 0\<rparr>
         else circuit2)"

definition RecordFailure :: "CircuitBreaker \<Rightarrow> Time \<Rightarrow> Time \<Rightarrow> string \<Rightarrow> CircuitBreaker" where
  "RecordFailure cb now now' endpoint =
     (let circuit = (case circuits cb endpoint of None \<Rightarrow> newCircuit | Some c \<Rightarrow> c)
      in cb\<lparr>circuits := (circuits cb)(endpoint \<mapsto> recordFailureCircuit cb now now' circuit)\<rparr>)"

definition GetState :: "CircuitBreaker \<Rightarrow> string \<Rightarrow> CircuitBreakerState" where
  "GetState cb endpoint =
     (case circuits cb endpoint of
        None \<Rightarrow> CircuitBreakerClosed
      | Some circuit \<Rightarrow> state circuit)"

definition Reset :: "CircuitBreaker \<Rightarrow> string \<Rightarrow> CircuitBreaker" where
  "Reset cb endpoint = cb\<lparr>circuits := (circuits cb)(endpoint := None)\<rparr>"

definition ResetAll :: "CircuitBreaker \<Rightarrow> CircuitBreaker" where
  "ResetAll cb = cb\<lparr>circuits := Map.empty\<rparr>"

section \<open>Sequences of calls\<close>

text \<open>
  The public methods of the breaker as a datatype of calls, each with the clock
  readings it takes, and what a call returns. \<open>perform\<close> runs one call,
  \<open>performAll\<close> a sequence of calls in order (the lock serialises them).
\<close>

datatype call =
  CallIsOpen Time string
| CallCanAttempt Time string
| CallRecordSuccess string
| CallRecordFailure Time Time string
| CallGetState string
| CallReset string
| CallResetAll

datatype reply = ReplyBool bool | ReplyState CircuitBreakerState | ReplyNone

fun perform :: "CircuitBreaker \<Rightarrow> call \<Rightarrow> reply \<times> CircuitBreaker" where
  "perform cb (CallIsOpen now k) = (ReplyBool (IsOpen cb now k), cb)"
| "perform cb (CallCanAttempt now k) =
     (let (ok, cb') = CanAttempt cb now k in (ReplyBool ok, cb'))"
| "perform cb (CallRecordSuccess k) = (ReplyNone, RecordSuccess cb k)"
| "perform cb (CallRecordFailure now now' k) = (ReplyNone, RecordFailure cb now now' k)"
| "perform cb (CallGetState k) = (ReplyState (GetState cb k), cb)"
| "perform cb (CallReset k) = (ReplyNone, Reset cb k)"
| "perform cb CallResetAll = (ReplyNone, ResetAll cb)"

fun performAll :: "CircuitBreaker \<Rightarrow> call list \<Rightarrow> reply list \<times> CircuitBreaker" where
  "performAll cb [] = ([], cb)"
| "performAll cb (c # cs) =
     (let (r, cb') = perform cb c; (rs, cb'') = performAll cb' cs in (r # rs, cb''))"

text \<open>The endpoint a call is about (\<open>ResetAll\<close> names none).\<close>

fun endpointOf :: "call \<Rightarrow> string option" where
  "endpointOf (CallIsOpen now k) = Some k"
| "endpointOf (CallCanAttempt now k) = Some k"
| "endpointOf (CallRecordSuccess k) = Some k"
| "endpointOf (CallRecordFailure now now' k) = Some k"
| "endpointOf (CallGetState k) = Some k"
| "endpointOf (CallReset k) = Some k"
| "endpointOf CallResetAll = None"

text \<open>What a caller of endpoint \<open>k\<close> sees of a run: the replies to the calls about \<open>k\<close>.\<close>

fun repliesFor :: "string \<Rightarrow> call list \<Rightarrow> reply list \<Rightarrow> reply list" where
  "repliesFor k (c # cs) (r # rs) =
     (if endpointOf c = Some k then r # repliesFor k cs rs else repliesFor k cs rs)"
| "repliesFor k cs rs = []"

text \<open>A call is a granted permit for \<open>k\<close> when it is \<open>CanAttempt\<close> on \<open>k\<close> returning true.\<close>

fun isPermit :: "string \<Rightarrow> call \<Rightarrow> reply \<Rightarrow> bool" where
  "isPermit k (CallCanAttempt now k') (ReplyBool ok) = (k' = k \<and> ok)"
| "isPermit k c r = False"

text \<open>
  The permits granted to \<open>k\<close> by a sequence of calls for as long as the record of
  \<open>k\<close> stays half-open: the count stops at the first call that finds the record in
  another state (or gone).
\<close>

fun windowPermits :: "CircuitBreaker \<Rightarrow> string \<Rightarrow> call list \<Rightarrow> nat" where
  "windowPermits cb k [] = 0"
| "windowPermits cb k (c # cs) =
     (case circuits cb k of
        None \<Rightarrow> 0
      | Some circuit \<Rightarrow>
          if state circuit \<noteq> CircuitBreakerHalfOpen then 0
          else (let (r, cb') = perform cb c
                in (if isPermit k c r then 1 else 0) + windowPermits cb' k cs))"

section \<open>Floating point\<close>

text \<open>
  The retry manager computes the exponential backoff and the jitter in \<open>float64\<close>.
  A \<open>float64\<close> is a finite value (a rational), an infinity or NaN; the two zeros are
  one value, since nothing here divides or looks at the sign of a zero. Every operation
  rounds the exact result to the nearest value of 53 significant bits, ties to even,
  with the subnormal quantum \<open>2\<^sup>-\<^sup>1\<^sup>0\<^sup>7\<^sup>4\<close> and overflow to an infinity (IEEE 754
  binary64, the arithmetic the Go specification prescribes).
\<close>

datatype float64 = Finite rat | PosInf | NegInf | NaN

text \<open>\<open>ilog2 x\<close> is the exponent of \<open>x > 0\<close>: \<open>2\<^sup>e \<le> x < 2\<^sup>e\<^sup>+\<^sup>1\<close>.\<close>

definition ilog2 :: "rat \<Rightarrow> int" where
  "ilog2 x =
     (if 1 \<le> x then bitlen \<lfloor>x\<rfloor> - 1
      else - bitlen (\<lceil>1 / x\<rceil> - 1))"

definition roundHalfEven :: "rat \<Rightarrow> int" where
  "roundHalfEven y =
     (let f = \<lfloor>y\<rfloor>; d = y - of_int f
      in if d < 1 / 2 then f
         else if 1 / 2 < d then f + 1
         else if even f then f else f + 1)"

text \<open>
  The spacing of the \<open>float64\<close> values around \<open>x\<close>: 52 binary places below the
  exponent of \<open>x\<close>, and never below the subnormal spacing.
\<close>

definition qexp :: "rat \<Rightarrow> int" where
  "qexp x = max (ilog2 \<bar>x\<bar> - 52) (- 1074)"

definition quantum :: "rat \<Rightarrow> rat" where
  "quantum x = 2 powi qexp x"

definition roundFinite :: "rat \<Rightarrow> rat" where
  "roundFinite x = (if x = 0 then 0 else of_int (roundHalfEven (x / quantum x)) * quantum x)"

definition overflow :: "rat \<Rightarrow> float64" where
  "overflow y =
     (if y = 0 then Finite 0
      else if 1024 \<le> ilog2 \<bar>y\<bar> then (if 0 < y then PosInf else NegInf)
      else Finite y)"

definition rnd :: "rat \<Rightarrow> float64" where
  "rnd x = overflow (roundFinite x)"

definition isNeg :: "float64 \<Rightarrow> bool" where
  "isNeg x = (case x of Finite a \<Rightarrow> a < 0 | NegInf \<Rightarrow> True | _ \<Rightarrow> False)"

definition fneg :: "float64 \<Rightarrow> float64" where
  "fneg x = (case x of Finite a \<Rightarrow> Finite (- a) | PosInf \<Rightarrow> NegInf | NegInf \<Rightarrow> PosInf
             | NaN \<Rightarrow> NaN)"

definition fmul :: "float64 \<Rightarrow> float64 \<Rightarrow> float64" where
  "fmul x y =
     (case (x, y) of
        (NaN, _) \<Rightarrow> NaN
      | (_, NaN) \<Rightarrow> NaN
      | (Finite a, Finite b) \<Rightarrow> rnd (a * b)
      | _ \<Rightarrow> if x = Finite 0 \<or> y = Finite 0 then NaN
             else if isNeg x = isNeg y then PosInf else NegInf)"

definition fadd :: "float64 \<Rightarrow> float64 \<Rightarrow> float64" where
  "fadd x y =
     (case (x, y) of
        (NaN, _) \<Rightarrow> NaN
      | (_, NaN) \<Rightarrow> NaN
      | (Finite a, Finite b) \<Rightarrow> rnd (a + b)
      | (Finite a, _) \<Rightarrow> y
      | (_, Finite b) \<Rightarrow> x
      | _ \<Rightarrow> if x = y then x else NaN)"

definition fsub :: "float64 \<Rightarrow> float64 \<Rightarrow> float64" where
  "fsub x y = fadd x (fneg y)"

text \<open>The fused \<open>x * y + z\<close>: one rounding of the exact result.\<close>

definition fma :: "float64 \<Rightarrow> float64 \<Rightarrow> float64 \<Rightarrow> float64" where
  "fma x y z =
     (case (x, y, z) of
        (Finite a, Finite b, Finite c) \<Rightarrow> rnd (a * b + c)
      | (Finite a, Finite b, _) \<Rightarrow> z
      | _ \<Rightarrow> fadd (fmul x y) z)"

text \<open>The comparisons \<open><\<close> and \<open>\<le>\<close>: false whenever an operand is NaN.\<close>

definition flt :: "float64 \<Rightarrow> float64 \<Rightarrow> bool" where
  "flt x y =
     (case (x, y) of
        (NaN, _) \<Rightarrow> False
      | (_, NaN) \<Rightarrow> False
      | (Finite a, Finite b) \<Rightarrow> a < b
      | (NegInf, NegInf) \<Rightarrow> False
      | (NegInf, _) \<Rightarrow> True
      | (PosInf, _) \<Rightarrow> False
      | (Finite a, PosInf) \<Rightarrow> True
      | (Finite a, NegInf) \<Rightarrow> False)"

definition fle :: "float64 \<Rightarrow> float64 \<Rightarrow> bool" where
  "fle x y = (x \<noteq> NaN \<and> y \<noteq> NaN \<and> \<not> flt y x)"

text \<open>
  What the Go specification leaves to the implementation: whether \<open>x*y - z\<close> is fused
  into one operation, and the result of converting to \<open>int64\<close> a \<open>float64\<close> that is
  NaN or out of the range of \<open>int64\<close>.
\<close>

record platform =
  fusedMulAdd :: bool
  convertOutOfRange :: "float64 \<Rightarrow> Duration"

text \<open>
  Two implementations, for the examples: on amd64 (at the default \<open>GOAMD64=v1\<close>)
  nothing is fused and an invalid conversion gives the smallest \<open>int64\<close>; on arm64
  the multiplication and the subtraction are fused and an invalid conversion saturates
  (NaN gives zero).
\<close>

definition amd64 :: platform where
  "amd64 = \<lparr>fusedMulAdd = False, convertOutOfRange = (\<lambda>x. - (2 ^ 63))\<rparr>"

definition arm64 :: platform where
  "arm64 =
     \<lparr>fusedMulAdd = True,
      convertOutOfRange =
        (\<lambda>x. case x of
               NaN \<Rightarrow> 0
             | PosInf \<Rightarrow> 2 ^ 63 - 1
             | NegInf \<Rightarrow> - (2 ^ 63)
             | Finite v \<Rightarrow> if 0 < v then 2 ^ 63 - 1 else - (2 ^ 63))\<rparr>"

text \<open>The conversion \<open>float64(d)\<close> of an \<open>int64\<close>.\<close>

definition float64OfInt64 :: "64 word \<Rightarrow> float64" where
  "float64OfInt64 d = rnd (of_int (sint d))"

text \<open>The conversion \<open>time.Duration(x)\<close> of a \<open>float64\<close>: truncation towards zero.\<close>

definition truncateRat :: "rat \<Rightarrow> int" where
  "truncateRat v = (if 0 \<le> v then \<lfloor>v\<rfloor> else \<lceil>v\<rceil>)"

definition durationOfFloat64 :: "platform \<Rightarrow> float64 \<Rightarrow> Duration" where
  "durationOfFloat64 p x =
     (case x of
        Finite v \<Rightarrow>
          if - (2 ^ 63) \<le> truncateRat v \<and> truncateRat v < 2 ^ 63
          then word_of_int (truncateRat v)
          else convertOutOfRange p x
      | _ \<Rightarrow> convertOutOfRange p x)"

text \<open>
  \<open>math.Pow(2, y)\<close> for an integral \<open>y\<close>, the only arguments it gets here (\<open>y\<close> is
  the conversion of an \<open>int\<close>): the power of two, \<open>+Inf\<close> on overflow, zero on
  underflow.
\<close>

definition mathPow2 :: "float64 \<Rightarrow> float64" where
  "mathPow2 y =
     (case y of
        Finite v \<Rightarrow> rnd (2 powi \<lfloor>v\<rfloor>)
      | PosInf \<Rightarrow> PosInf
      | NegInf \<Rightarrow> Finite 0
      | NaN \<Rightarrow> NaN)"

section \<open>Retry options and the retry manager\<close>

text \<open>
  \<open>models.RetryOptions\<close> (domain/models/retry.go). \<open>BackoffStrategy\<close> is a string
  type with three named constants; any other string takes the \<open>default\<close> branch of
  \<open>CalculateDelay\<close>. The field \<open>CircuitBreaker\<close> of the struct is
  \<open>CircuitBreakerEnabled\<close> here.
\<close>

type_synonym BackoffStrategy = string

definition BackoffExponential :: BackoffStrategy where
  "BackoffExponential = ''exponential''"

definition BackoffLinear :: BackoffStrategy where
  "BackoffLinear = ''linear''"

definition BackoffFixed :: BackoffStrategy where
  "BackoffFixed = ''fixed''"

record RetryOptions =
  MaxRetries :: goint
  InitialDelay :: Duration
  MaxDelay :: Duration
  Backoff :: BackoffStrategy
  Jitter :: bool
  JitterFraction :: float64
  RetryOnStatusCodes :: "goint list"
  CircuitBreakerEnabled :: bool
  CircuitBreakerThreshold :: goint
  CircuitBreakerTimeout :: Duration
  CircuitBreakerHalfOpenRequests :: goint

definition NewRetryOptions :: RetryOptions where
  "NewRetryOptions =
     \<lparr>MaxRetries = 3, InitialDelay = 100000000, MaxDelay = 30000000000,
      Backoff = BackoffExponential, Jitter = True, JitterFraction = rnd (3 / 10),
      RetryOnStatusCodes = [], CircuitBreakerEnabled = False, CircuitBreakerThreshold = 5,
      CircuitBreakerTimeout = 60000000000, CircuitBreakerHalfOpenRequests = 1\<rparr>"

text \<open>The loop of \<open>ShouldRetryStatus\<close> over the configured status codes.\<close>

fun retryOnStatusCode :: "goint list \<Rightarrow> goint \<Rightarrow> bool" where
  "retryOnStatusCode [] statusCode = False"
| "retryOnStatusCode (code # codes) statusCode =
     (if statusCode = code then True else retryOnStatusCode codes statusCode)"

definition ShouldRetryStatus :: "RetryOptions \<Rightarrow> goint \<Rightarrow> bool" where
  "ShouldRetryStatus r statusCode =
     (if 500 \<le>s statusCode \<and> statusCode <s 600 then True
      else retryOnStatusCode (RetryOnStatusCodes r) statusCode)"

text \<open>
  The methods of \<open>RetryManager\<close> take the options of the manager. An \<open>error\<close> is
  \<open>None\<close> for \<open>nil\<close>. The value that \<open>rm.rng.Float64()\<close> returns is the argument
  \<open>u\<close> of the functions that draw it.
\<close>

definition ShouldRetry :: "RetryOptions \<Rightarrow> goint \<Rightarrow> goint \<Rightarrow> 'e option \<Rightarrow> bool" where
  "ShouldRetry options attempt statusCode err =
     (if MaxRetries options \<le>s attempt then False
      else if err \<noteq> None then True
      else ShouldRetryStatus options statusCode)"

definition calculateExponentialBackoff :: "platform \<Rightarrow> RetryOptions \<Rightarrow> goint \<Rightarrow> Duration" where
  "calculateExponentialBackoff p options attempt =
     durationOfFloat64 p
       (fmul (float64OfInt64 (InitialDelay options)) (mathPow2 (float64OfInt64 attempt)))"

definition calculateLinearBackoff :: "RetryOptions \<Rightarrow> goint \<Rightarrow> Duration" where
  "calculateLinearBackoff options attempt = InitialDelay options * (attempt + 1)"

definition jitterFractionOf :: "RetryOptions \<Rightarrow> float64" where
  "jitterFractionOf options =
     (let jitterFraction =
            (if fle (JitterFraction options) (Finite 0) then rnd (3 / 10)
             else JitterFraction options)
      in if flt (Finite 1) jitterFraction then Finite 1 else jitterFraction)"

definition applyJitter :: "platform \<Rightarrow> RetryOptions \<Rightarrow> float64 \<Rightarrow> Duration \<Rightarrow> Duration" where
  "applyJitter p options u delay =
     (let jitterFraction = jitterFractionOf options;
          jitterRange = fmul (float64OfInt64 delay) jitterFraction;
          randomJitter =
            (if fusedMulAdd p
             then fma (fmul u (Finite 2)) jitterRange (fneg jitterRange)
             else fsub (fmul (fmul u (Finite 2)) jitterRange) jitterRange);
          newDelay = fadd (float64OfInt64 delay) randomJitter
      in durationOfFloat64 p (if flt newDelay (Finite 0) then Finite 0 else newDelay))"

definition CalculateDelay :: "platform \<Rightarrow> RetryOptions \<Rightarrow> float64 \<Rightarrow> goint \<Rightarrow> Duration" where
  "CalculateDelay p options u attempt =
     (let delay =
            (if Backoff options = BackoffExponential
             then calculateExponentialBackoff p options attempt
             else if Backoff options = BackoffLinear
             then calculateLinearBackoff options attempt
             else if Backoff options = BackoffFixed then InitialDelay options
             else calculateExponentialBackoff p options attempt);
          delay1 = (if MaxDelay options <s delay then MaxDelay options else delay)
      in if Jitter options then applyJitter p options u delay1 else delay1)"

section \<open>Opening the circuit\<close>

text \<open>
  C1. On a record in the closed state, \<open>RecordFailure\<close> increments \<open>failureCount\<close>;
  when the incremented count reaches the threshold the record becomes open with
  \<open>openedAt\<close> the reading of the clock, otherwise it stays closed. While a record is
  open and its timeout has not elapsed, \<open>CanAttempt\<close> returns false and leaves the
  breaker as it is, so every further call is denied as well.
\<close>

theorem closed_failure_opens_and_open_denies:
  "(circuits cb k = Some c \<and> state c = CircuitBreakerClosed \<longrightarrow>
      circuits (RecordFailure cb now now' k) k =
        Some (if threshold cb \<le>s failureCount c + 1
              then c\<lparr>failureCount := failureCount c + 1, lastFailureTime := now,
                     state := CircuitBreakerOpen, openedAt := now'\<rparr>
              else c\<lparr>failureCount := failureCount c + 1, lastFailureTime := now\<rparr>))
   \<and> (circuits cb k = Some c \<and> state c = CircuitBreakerOpen
        \<and> Since t (openedAt c) <s timeout cb \<longrightarrow>
      CanAttempt cb t k = (False, cb))"
proof (intro conjI impI)
  assume h: "circuits cb k = Some c \<and> state c = CircuitBreakerClosed"
  then show "circuits (RecordFailure cb now now' k) k =
        Some (if threshold cb \<le>s failureCount c + 1
              then c\<lparr>failureCount := failureCount c + 1, lastFailureTime := now,
                     state := CircuitBreakerOpen, openedAt := now'\<rparr>
              else c\<lparr>failureCount := failureCount c + 1, lastFailureTime := now\<rparr>)"
    by (simp add: RecordFailure_def recordFailureCircuit_def Let_def)
next
  assume h: "circuits cb k = Some c \<and> state c = CircuitBreakerOpen
        \<and> Since t (openedAt c) <s timeout cb"
  then have "\<not> timeout cb \<le>s Since t (openedAt c)"
    by (simp add: word_sle_eq word_sless_alt)
  with h have "canAttemptCircuit cb t c = (False, c)"
    by (simp add: canAttemptCircuit_def)
  with h have "CanAttempt cb t k = (False, cb\<lparr>circuits := (circuits cb)(k \<mapsto> c)\<rparr>)"
    by (simp add: CanAttempt_def)
  moreover from h have "(circuits cb)(k \<mapsto> c) = circuits cb"
    by (simp add: map_upd_triv)
  ultimately show "CanAttempt cb t k = (False, cb)"
    by simp
qed

theorem closed_failure_opens_and_open_denies_witness:
  "GetState (RecordFailure
       \<lparr>circuits = [''/fail'' \<mapsto> \<lparr>state = CircuitBreakerClosed, failureCount = 2,
           lastFailureTime = 20, openedAt = 0, halfOpenSuccessCount = 0, halfOpenAttempts = 0\<rparr>],
        threshold = 3, timeout = 60000000000, halfOpenRequests = 1\<rparr> 30 31 ''/fail'') ''/fail''
     = CircuitBreakerOpen
   \<and> fst (CanAttempt
       \<lparr>circuits = [''/fail'' \<mapsto> \<lparr>state = CircuitBreakerOpen, failureCount = 3,
           lastFailureTime = 30, openedAt = 31, halfOpenSuccessCount = 0, halfOpenAttempts = 0\<rparr>],
        threshold = 3, timeout = 60000000000, halfOpenRequests = 1\<rparr> 40 ''/fail'') = False"
  using closed_failure_opens_and_open_denies
     [of "\<lparr>circuits = [''/fail'' \<mapsto> \<lparr>state = CircuitBreakerClosed, failureCount = 2,
           lastFailureTime = 20, openedAt = 0, halfOpenSuccessCount = 0, halfOpenAttempts = 0\<rparr>],
        threshold = 3, timeout = 60000000000, halfOpenRequests = 1\<rparr>" "''/fail''"
         "\<lparr>state = CircuitBreakerClosed, failureCount = 2,
           lastFailureTime = 20, openedAt = 0, halfOpenSuccessCount = 0, halfOpenAttempts = 0\<rparr>"
         30 31 40]
    closed_failure_opens_and_open_denies
     [of "\<lparr>circuits = [''/fail'' \<mapsto> \<lparr>state = CircuitBreakerOpen, failureCount = 3,
           lastFailureTime = 30, openedAt = 31, halfOpenSuccessCount = 0, halfOpenAttempts = 0\<rparr>],
        threshold = 3, timeout = 60000000000, halfOpenRequests = 1\<rparr>" "''/fail''"
         "\<lparr>state = CircuitBreakerOpen, failureCount = 3,
           lastFailureTime = 30, openedAt = 31, halfOpenSuccessCount = 0, halfOpenAttempts = 0\<rparr>"
         30 31 40]
  by (simp add: Since_def maxDuration_def minDuration_def word_sle_eq word_sless_alt GetState_def)

section \<open>Leaving the half-open state\<close>

text \<open>
  C4. On a half-open record, \<open>RecordSuccess\<close> increments \<open>halfOpenSuccessCount\<close>
  and closes the circuit, with \<open>failureCount\<close> reset to zero, exactly when the
  incremented count has reached the configured \<open>halfOpenRequests\<close>; otherwise the
  record stays half-open. \<open>RecordFailure\<close> on a half-open record reopens it at once,
  with a new \<open>openedAt\<close> and both half-open counters reset to zero.
\<close>

theorem half_open_success_and_failure:
  "circuits cb k = Some c \<and> state c = CircuitBreakerHalfOpen \<longrightarrow>
     circuits (RecordSuccess cb k) k =
       Some (if halfOpenRequests cb \<le>s halfOpenSuccessCount c + 1
             then c\<lparr>halfOpenSuccessCount := halfOpenSuccessCount c + 1,
                    state := CircuitBreakerClosed, failureCount := 0\<rparr>
             else c\<lparr>halfOpenSuccessCount := halfOpenSuccessCount c + 1\<rparr>)
     \<and> circuits (RecordFailure cb now now' k) k =
       Some (c\<lparr>failureCount := failureCount c + 1, lastFailureTime := now,
               state := CircuitBreakerOpen, openedAt := now',
               halfOpenAttempts := 0, halfOpenSuccessCount := 0\<rparr>)"
  by (simp add: RecordSuccess_def recordSuccessCircuit_def RecordFailure_def
      recordFailureCircuit_def Let_def)

theorem half_open_success_and_failure_witness:
  "GetState (RecordSuccess
     \<lparr>circuits = [''/test'' \<mapsto> \<lparr>state = CircuitBreakerHalfOpen, failureCount = 2,
         lastFailureTime = 30, openedAt = 31, halfOpenSuccessCount = 0, halfOpenAttempts = 1\<rparr>],
      threshold = 2, timeout = 300000000, halfOpenRequests = 2\<rparr> ''/test'') ''/test''
     = CircuitBreakerHalfOpen
   \<and> circuits (RecordSuccess
     \<lparr>circuits = [''/test'' \<mapsto> \<lparr>state = CircuitBreakerHalfOpen, failureCount = 2,
         lastFailureTime = 30, openedAt = 31, halfOpenSuccessCount = 1, halfOpenAttempts = 2\<rparr>],
      threshold = 2, timeout = 300000000, halfOpenRequests = 2\<rparr> ''/test'') ''/test''
     = Some \<lparr>state = CircuitBreakerClosed, failureCount = 0,
         lastFailureTime = 30, openedAt = 31, halfOpenSuccessCount = 2, halfOpenAttempts = 2\<rparr>
   \<and> circuits (RecordFailure
     \<lparr>circuits = [''/test'' \<mapsto> \<lparr>state = CircuitBreakerHalfOpen, failureCount = 2,
         lastFailureTime = 30, openedAt = 31, halfOpenSuccessCount = 1, halfOpenAttempts = 2\<rparr>],
      threshold = 2, timeout = 300000000, halfOpenRequests = 2\<rparr> 70 71 ''/test'') ''/test''
     = Some \<lparr>state = CircuitBreakerOpen, failureCount = 3,
         lastFailureTime = 70, openedAt = 71, halfOpenSuccessCount = 0, halfOpenAttempts = 0\<rparr>"
  using half_open_success_and_failure
     [of "\<lparr>circuits = [''/test'' \<mapsto> \<lparr>state = CircuitBreakerHalfOpen, failureCount = 2,
         lastFailureTime = 30, openedAt = 31, halfOpenSuccessCount = 0, halfOpenAttempts = 1\<rparr>],
      threshold = 2, timeout = 300000000, halfOpenRequests = 2\<rparr>" "''/test''"
      "\<lparr>state = CircuitBreakerHalfOpen, failureCount = 2,
         lastFailureTime = 30, openedAt = 31, halfOpenSuccessCount = 0, halfOpenAttempts = 1\<rparr>"
      70 71]
    half_open_success_and_failure
     [of "\<lparr>circuits = [''/test'' \<mapsto> \<lparr>state = CircuitBreakerHalfOpen, failureCount = 2,
         lastFailureTime = 30, openedAt = 31, halfOpenSuccessCount = 1, halfOpenAttempts = 2\<rparr>],
      threshold = 2, timeout = 300000000, halfOpenRequests = 2\<rparr>" "''/test''"
      "\<lparr>state = CircuitBreakerHalfOpen, failureCount = 2,
         lastFailureTime = 30, openedAt = 31, halfOpenSuccessCount = 1, halfOpenAttempts = 2\<rparr>"
      70 71]
  by (simp add: GetState_def word_sle_eq)

section \<open>Failures while the circuit is open\<close>

text \<open>
  C10. \<open>RecordFailure\<close> on a record that is already open leaves it open and leaves
  \<open>openedAt\<close> as it was: the only fields that change are \<open>failureCount\<close> and
  \<open>lastFailureTime\<close>, and nothing else in the breaker changes.
\<close>

theorem failure_on_open_keeps_window:
  "circuits cb k = Some c \<and> state c = CircuitBreakerOpen \<longrightarrow>
     RecordFailure cb now now' k =
       cb\<lparr>circuits := (circuits cb)(k \<mapsto>
             c\<lparr>failureCount := failureCount c + 1, lastFailureTime := now\<rparr>)\<rparr>"
  by (simp add: RecordFailure_def recordFailureCircuit_def Let_def)

theorem failure_on_open_keeps_window_witness:
  "RecordFailure
     \<lparr>circuits = [''/fail'' \<mapsto> \<lparr>state = CircuitBreakerOpen, failureCount = 3,
         lastFailureTime = 30, openedAt = 31, halfOpenSuccessCount = 0, halfOpenAttempts = 0\<rparr>],
      threshold = 3, timeout = 60000000000, halfOpenRequests = 1\<rparr> 50 51 ''/fail''
   = \<lparr>circuits = [''/fail'' \<mapsto> \<lparr>state = CircuitBreakerOpen, failureCount = 4,
         lastFailureTime = 50, openedAt = 31, halfOpenSuccessCount = 0, halfOpenAttempts = 0\<rparr>],
      threshold = 3, timeout = 60000000000, halfOpenRequests = 1\<rparr>"
  using failure_on_open_keeps_window
     [of "\<lparr>circuits = [''/fail'' \<mapsto> \<lparr>state = CircuitBreakerOpen, failureCount = 3,
         lastFailureTime = 30, openedAt = 31, halfOpenSuccessCount = 0, halfOpenAttempts = 0\<rparr>],
      threshold = 3, timeout = 60000000000, halfOpenRequests = 1\<rparr>" "''/fail''"
      "\<lparr>state = CircuitBreakerOpen, failureCount = 3,
         lastFailureTime = 30, openedAt = 31, halfOpenSuccessCount = 0, halfOpenAttempts = 0\<rparr>"
      50 51]
  by simp

section \<open>The half-open window\<close>

text \<open>Go's \<open>++\<close> on a counter below another \<open>int\<close> does not wrap.\<close>

lemma sint_succ64: "sint (a::64 word) < sint (b::64 word) \<Longrightarrow> sint (a + 1) = sint a + 1"
proof -
  assume h: "sint a < sint b"
  have "sint b < 2 ^ 63" using sint_lt [of b] by simp
  with h have ub: "sint a + 1 < 2 ^ 63" by simp
  have lb: "- (2 ^ 63) \<le> sint a" using sint_ge [of a] by simp
  show ?thesis
    using ub lb by (simp add: sint_word_ariths signed_take_bit_int_eq_self)
qed

lemma perform_keeps_config:
  "perform cb call = (r, cb') \<Longrightarrow>
     threshold cb' = threshold cb \<and> timeout cb' = timeout cb
     \<and> halfOpenRequests cb' = halfOpenRequests cb"
  by (cases call)
     (auto simp: CanAttempt_def RecordSuccess_def RecordFailure_def Reset_def ResetAll_def
        Let_def split: option.splits prod.splits)

lemma windowPermits_not_half_open:
  "(case circuits cb k of None \<Rightarrow> True | Some c \<Rightarrow> state c \<noteq> CircuitBreakerHalfOpen)
     \<Longrightarrow> windowPermits cb k cs = 0"
  by (cases cs) (auto split: option.splits)

lemma perform_half_open_step:
  assumes "circuits cb k = Some c" and "state c = CircuitBreakerHalfOpen"
    and "perform cb call = (r, cb')"
  shows "(isPermit k call r \<longrightarrow> halfOpenAttempts c <s halfOpenRequests cb)
       \<and> (\<forall>c'. circuits cb' k = Some c' \<and> state c' = CircuitBreakerHalfOpen \<longrightarrow>
              halfOpenAttempts c' =
                (if isPermit k call r then halfOpenAttempts c + 1 else halfOpenAttempts c))"
  using assms
  by (cases call)
     (auto simp: CanAttempt_def canAttemptCircuit_def RecordSuccess_def recordSuccessCircuit_def
        RecordFailure_def recordFailureCircuit_def Reset_def ResetAll_def Let_def
        word_sle_eq word_sless_alt
        split: option.splits prod.splits if_splits)

lemma windowPermits_bound:
  "circuits cb k = Some c \<Longrightarrow> state c = CircuitBreakerHalfOpen \<Longrightarrow>
     int (windowPermits cb k cs)
       \<le> max 0 (sint (halfOpenRequests cb) - sint (halfOpenAttempts c))"
proof (induction cs arbitrary: cb c)
  case Nil
  then show ?case by simp
next
  case (Cons call cs)
  obtain r cb' where p: "perform cb call = (r, cb')"
    by (cases "perform cb call")
  have cfg: "halfOpenRequests cb' = halfOpenRequests cb"
    using perform_keeps_config [OF p] by simp
  have step: "(isPermit k call r \<longrightarrow> halfOpenAttempts c <s halfOpenRequests cb)
       \<and> (\<forall>c'. circuits cb' k = Some c' \<and> state c' = CircuitBreakerHalfOpen \<longrightarrow>
              halfOpenAttempts c' =
                (if isPermit k call r then halfOpenAttempts c + 1 else halfOpenAttempts c))"
    using perform_half_open_step [OF Cons.prems(1) Cons.prems(2) p] .
  have unfold: "windowPermits cb k (call # cs)
      = (if isPermit k call r then 1 else 0) + windowPermits cb' k cs"
    using Cons.prems p by simp
  show ?case
  proof (cases "\<exists>c'. circuits cb' k = Some c' \<and> state c' = CircuitBreakerHalfOpen")
    case False
    then have "windowPermits cb' k cs = 0"
      by (intro windowPermits_not_half_open) (auto split: option.splits)
    with unfold step show ?thesis
      by (auto simp: word_sless_alt)
  next
    case True
    then obtain c' where c': "circuits cb' k = Some c'" "state c' = CircuitBreakerHalfOpen"
      by blast
    have ih: "int (windowPermits cb' k cs)
       \<le> max 0 (sint (halfOpenRequests cb) - sint (halfOpenAttempts c'))"
      using Cons.IH [OF c'] cfg by simp
    show ?thesis
    proof (cases "isPermit k call r")
      case True
      with step have lt: "sint (halfOpenAttempts c) < sint (halfOpenRequests cb)"
        by (simp add: word_sless_alt)
      from True step c' have "halfOpenAttempts c' = halfOpenAttempts c + 1" by simp
      then have "sint (halfOpenAttempts c') = sint (halfOpenAttempts c) + 1"
        using sint_succ64 [OF lt] by simp
      with ih unfold True lt show ?thesis by simp
    next
      case False
      with step c' have "halfOpenAttempts c' = halfOpenAttempts c" by simp
      with ih unfold False show ?thesis by simp
    qed
  qed
qed

text \<open>
  C3. \<open>CanAttempt\<close> on an open record whose timeout has elapsed moves it to
  half-open with \<open>halfOpenAttempts\<close> and \<open>halfOpenSuccessCount\<close> reset to zero and
  goes on as for a half-open record. On a half-open record it permits, incrementing
  \<open>halfOpenAttempts\<close>, while \<open>halfOpenAttempts < halfOpenRequests\<close>, and denies,
  changing nothing, once the budget is reached. Whatever calls follow, the permits
  granted while the record stays half-open (the call that opened the window included)
  are at most \<open>halfOpenRequests\<close>, and none when that is not positive.
\<close>

theorem half_open_budget:
  "(circuits cb k = Some c \<and> state c = CircuitBreakerOpen
      \<and> timeout cb \<le>s Since t (openedAt c) \<longrightarrow>
      CanAttempt cb t k =
        (let c0 = c\<lparr>state := CircuitBreakerHalfOpen, halfOpenAttempts := 0,
                     halfOpenSuccessCount := 0\<rparr>
         in if 0 <s halfOpenRequests cb
            then (True, cb\<lparr>circuits := (circuits cb)(k \<mapsto> c0\<lparr>halfOpenAttempts := 1\<rparr>)\<rparr>)
            else (False, cb\<lparr>circuits := (circuits cb)(k \<mapsto> c0)\<rparr>))
      \<and> int ((if fst (CanAttempt cb t k) then 1 else 0)
               + windowPermits (snd (CanAttempt cb t k)) k cs)
          \<le> max 0 (sint (halfOpenRequests cb)))
   \<and> (circuits cb k = Some c \<and> state c = CircuitBreakerHalfOpen \<longrightarrow>
      CanAttempt cb t k =
        (if halfOpenAttempts c <s halfOpenRequests cb
         then (True, cb\<lparr>circuits :=
                 (circuits cb)(k \<mapsto> c\<lparr>halfOpenAttempts := halfOpenAttempts c + 1\<rparr>)\<rparr>)
         else (False, cb))
      \<and> int (windowPermits cb k cs)
          \<le> max 0 (sint (halfOpenRequests cb) - sint (halfOpenAttempts c)))"
proof (intro conjI impI)
  assume h: "circuits cb k = Some c \<and> state c = CircuitBreakerOpen
      \<and> timeout cb \<le>s Since t (openedAt c)"
  let ?c0 = "c\<lparr>state := CircuitBreakerHalfOpen, halfOpenAttempts := 0,
                halfOpenSuccessCount := 0\<rparr>"
  show eq: "CanAttempt cb t k =
        (let c0 = ?c0
         in if 0 <s halfOpenRequests cb
            then (True, cb\<lparr>circuits := (circuits cb)(k \<mapsto> c0\<lparr>halfOpenAttempts := 1\<rparr>)\<rparr>)
            else (False, cb\<lparr>circuits := (circuits cb)(k \<mapsto> c0)\<rparr>))"
    using h by (simp add: CanAttempt_def canAttemptCircuit_def Let_def word_sle_eq word_sless_alt)
  show "int ((if fst (CanAttempt cb t k) then 1 else 0)
               + windowPermits (snd (CanAttempt cb t k)) k cs)
          \<le> max 0 (sint (halfOpenRequests cb))"
  proof (cases "0 <s halfOpenRequests cb")
    case True
    let ?cb' = "cb\<lparr>circuits := (circuits cb)(k \<mapsto> ?c0\<lparr>halfOpenAttempts := 1\<rparr>)\<rparr>"
    have "int (windowPermits ?cb' k cs)
        \<le> max 0 (sint (halfOpenRequests ?cb') - sint (halfOpenAttempts (?c0\<lparr>halfOpenAttempts := 1\<rparr>)))"
      by (rule windowPermits_bound) simp_all
    with True eq show ?thesis
      by (simp add: Let_def word_sless_alt)
  next
    case False
    let ?cb' = "cb\<lparr>circuits := (circuits cb)(k \<mapsto> ?c0)\<rparr>"
    have "int (windowPermits ?cb' k cs)
        \<le> max 0 (sint (halfOpenRequests ?cb') - sint (halfOpenAttempts ?c0))"
      by (rule windowPermits_bound) simp_all
    with False eq show ?thesis
      by (simp add: Let_def word_sless_alt)
  qed
next
  assume h: "circuits cb k = Some c \<and> state c = CircuitBreakerHalfOpen"
  then have "(circuits cb)(k \<mapsto> c) = circuits cb"
    by (simp add: map_upd_triv)
  with h show "CanAttempt cb t k =
        (if halfOpenAttempts c <s halfOpenRequests cb
         then (True, cb\<lparr>circuits :=
                 (circuits cb)(k \<mapsto> c\<lparr>halfOpenAttempts := halfOpenAttempts c + 1\<rparr>)\<rparr>)
         else (False, cb))"
    by (simp add: CanAttempt_def canAttemptCircuit_def Let_def word_sle_eq word_sless_alt)
  from h show "int (windowPermits cb k cs)
          \<le> max 0 (sint (halfOpenRequests cb) - sint (halfOpenAttempts c))"
    by (simp add: windowPermits_bound)
qed

theorem half_open_budget_witness:
  "CanAttempt \<lparr>circuits = [''/test'' \<mapsto> \<lparr>state = CircuitBreakerOpen, failureCount = 3,
         lastFailureTime = 30, openedAt = 31, halfOpenSuccessCount = 4, halfOpenAttempts = 7\<rparr>],
      threshold = 3, timeout = 1000, halfOpenRequests = 2\<rparr> 5000 ''/test''
    = (True, \<lparr>circuits = [''/test'' \<mapsto> \<lparr>state = CircuitBreakerHalfOpen, failureCount = 3,
         lastFailureTime = 30, openedAt = 31, halfOpenSuccessCount = 0, halfOpenAttempts = 1\<rparr>],
      threshold = 3, timeout = 1000, halfOpenRequests = 2\<rparr>)
   \<and> windowPermits \<lparr>circuits = [''/test'' \<mapsto> \<lparr>state = CircuitBreakerHalfOpen, failureCount = 3,
         lastFailureTime = 30, openedAt = 31, halfOpenSuccessCount = 0, halfOpenAttempts = 1\<rparr>],
      threshold = 3, timeout = 1000, halfOpenRequests = 2\<rparr> ''/test''
       [CallCanAttempt 5001 ''/test'', CallCanAttempt 5002 ''/test'',
        CallCanAttempt 5003 ''/test''] \<le> 1
   \<and> CanAttempt \<lparr>circuits = [''/test'' \<mapsto> \<lparr>state = CircuitBreakerHalfOpen, failureCount = 3,
         lastFailureTime = 30, openedAt = 31, halfOpenSuccessCount = 0, halfOpenAttempts = 2\<rparr>],
      threshold = 3, timeout = 1000, halfOpenRequests = 2\<rparr> 5002 ''/test''
    = (False, \<lparr>circuits = [''/test'' \<mapsto> \<lparr>state = CircuitBreakerHalfOpen, failureCount = 3,
         lastFailureTime = 30, openedAt = 31, halfOpenSuccessCount = 0, halfOpenAttempts = 2\<rparr>],
      threshold = 3, timeout = 1000, halfOpenRequests = 2\<rparr>)"
  using half_open_budget
     [of "\<lparr>circuits = [''/test'' \<mapsto> \<lparr>state = CircuitBreakerOpen, failureCount = 3,
         lastFailureTime = 30, openedAt = 31, halfOpenSuccessCount = 4, halfOpenAttempts = 7\<rparr>],
      threshold = 3, timeout = 1000, halfOpenRequests = 2\<rparr>" "''/test''"
      "\<lparr>state = CircuitBreakerOpen, failureCount = 3,
         lastFailureTime = 30, openedAt = 31, halfOpenSuccessCount = 4, halfOpenAttempts = 7\<rparr>"
      5000 "[]"]
    half_open_budget
     [of "\<lparr>circuits = [''/test'' \<mapsto> \<lparr>state = CircuitBreakerHalfOpen, failureCount = 3,
         lastFailureTime = 30, openedAt = 31, halfOpenSuccessCount = 0, halfOpenAttempts = 1\<rparr>],
      threshold = 3, timeout = 1000, halfOpenRequests = 2\<rparr>" "''/test''"
      "\<lparr>state = CircuitBreakerHalfOpen, failureCount = 3,
         lastFailureTime = 30, openedAt = 31, halfOpenSuccessCount = 0, halfOpenAttempts = 1\<rparr>"
      5001 "[CallCanAttempt 5001 ''/test'', CallCanAttempt 5002 ''/test'',
        CallCanAttempt 5003 ''/test'']"]
    half_open_budget
     [of "\<lparr>circuits = [''/test'' \<mapsto> \<lparr>state = CircuitBreakerHalfOpen, failureCount = 3,
         lastFailureTime = 30, openedAt = 31, halfOpenSuccessCount = 0, halfOpenAttempts = 2\<rparr>],
      threshold = 3, timeout = 1000, halfOpenRequests = 2\<rparr>" "''/test''"
      "\<lparr>state = CircuitBreakerHalfOpen, failureCount = 3,
         lastFailureTime = 30, openedAt = 31, halfOpenSuccessCount = 0, halfOpenAttempts = 2\<rparr>"
      5002 "[]"]
  by (simp add: Since_def maxDuration_def minDuration_def word_sle_eq word_sless_alt Let_def
      del: windowPermits.simps)

section \<open>Queries on an open record whose timeout has elapsed\<close>

text \<open>
  C9, as amended. For an open record whose timeout has elapsed, \<open>GetState\<close> still
  returns open (only \<open>CanAttempt\<close> makes the transition) while \<open>IsOpen\<close> returns
  false; \<open>CanAttempt\<close> permits the attempt exactly when \<open>halfOpenRequests\<close> is at
  least 1, and with \<open>halfOpenRequests \<le> 0\<close> moves the record to half-open and denies.
\<close>

theorem open_elapsed_queries:
  "circuits cb k = Some c \<and> state c = CircuitBreakerOpen
     \<and> timeout cb \<le>s Since now (openedAt c) \<longrightarrow>
     GetState cb k = CircuitBreakerOpen \<and> IsOpen cb now k = False
     \<and> fst (CanAttempt cb now k) = (0 <s halfOpenRequests cb)"
  by (simp add: GetState_def IsOpen_def CanAttempt_def canAttemptCircuit_def Let_def
      word_sle_eq word_sless_alt)

theorem open_elapsed_queries_witness:
  "GetState \<lparr>circuits = [''/test'' \<mapsto> \<lparr>state = CircuitBreakerOpen, failureCount = 3,
         lastFailureTime = 30, openedAt = 31, halfOpenSuccessCount = 0, halfOpenAttempts = 0\<rparr>],
      threshold = 3, timeout = 1000, halfOpenRequests = 1\<rparr> ''/test'' = CircuitBreakerOpen
   \<and> IsOpen \<lparr>circuits = [''/test'' \<mapsto> \<lparr>state = CircuitBreakerOpen, failureCount = 3,
         lastFailureTime = 30, openedAt = 31, halfOpenSuccessCount = 0, halfOpenAttempts = 0\<rparr>],
      threshold = 3, timeout = 1000, halfOpenRequests = 1\<rparr> 5000 ''/test'' = False
   \<and> fst (CanAttempt \<lparr>circuits = [''/test'' \<mapsto> \<lparr>state = CircuitBreakerOpen, failureCount = 3,
         lastFailureTime = 30, openedAt = 31, halfOpenSuccessCount = 0, halfOpenAttempts = 0\<rparr>],
      threshold = 3, timeout = 1000, halfOpenRequests = 1\<rparr> 5000 ''/test'') = True"
  using open_elapsed_queries
     [of "\<lparr>circuits = [''/test'' \<mapsto> \<lparr>state = CircuitBreakerOpen, failureCount = 3,
         lastFailureTime = 30, openedAt = 31, halfOpenSuccessCount = 0, halfOpenAttempts = 0\<rparr>],
      threshold = 3, timeout = 1000, halfOpenRequests = 1\<rparr>" "''/test''"
      "\<lparr>state = CircuitBreakerOpen, failureCount = 3,
         lastFailureTime = 30, openedAt = 31, halfOpenSuccessCount = 0, halfOpenAttempts = 0\<rparr>"
      5000]
  by (simp add: Since_def maxDuration_def minDuration_def word_sle_eq word_sless_alt)

text \<open>
  With \<open>halfOpenRequests = 0\<close> the gate does not let the key through: the record is
  open, its timeout has elapsed, \<open>GetState\<close> reports open, \<open>IsOpen\<close> reports false,
  and \<open>CanAttempt\<close> returns false.
\<close>

theorem open_elapsed_gate_denies_counterexample:
  "circuits \<lparr>circuits = [''/test'' \<mapsto> \<lparr>state = CircuitBreakerOpen, failureCount = 3,
         lastFailureTime = 30, openedAt = 31, halfOpenSuccessCount = 0, halfOpenAttempts = 0\<rparr>],
      threshold = 3, timeout = 1000, halfOpenRequests = 0\<rparr> ''/test''
     = Some \<lparr>state = CircuitBreakerOpen, failureCount = 3,
         lastFailureTime = 30, openedAt = 31, halfOpenSuccessCount = 0, halfOpenAttempts = 0\<rparr>
   \<and> (1000 :: Duration) \<le>s Since 5000 31
   \<and> GetState \<lparr>circuits = [''/test'' \<mapsto> \<lparr>state = CircuitBreakerOpen, failureCount = 3,
         lastFailureTime = 30, openedAt = 31, halfOpenSuccessCount = 0, halfOpenAttempts = 0\<rparr>],
      threshold = 3, timeout = 1000, halfOpenRequests = 0\<rparr> ''/test'' = CircuitBreakerOpen
   \<and> IsOpen \<lparr>circuits = [''/test'' \<mapsto> \<lparr>state = CircuitBreakerOpen, failureCount = 3,
         lastFailureTime = 30, openedAt = 31, halfOpenSuccessCount = 0, halfOpenAttempts = 0\<rparr>],
      threshold = 3, timeout = 1000, halfOpenRequests = 0\<rparr> 5000 ''/test'' = False
   \<and> fst (CanAttempt \<lparr>circuits = [''/test'' \<mapsto> \<lparr>state = CircuitBreakerOpen, failureCount = 3,
         lastFailureTime = 30, openedAt = 31, halfOpenSuccessCount = 0, halfOpenAttempts = 0\<rparr>],
      threshold = 3, timeout = 1000, halfOpenRequests = 0\<rparr> 5000 ''/test'') = False"
  by (simp add: GetState_def IsOpen_def CanAttempt_def canAttemptCircuit_def Let_def Since_def maxDuration_def
      minDuration_def word_sle_eq word_sless_alt)

section \<open>Unseen keys and reset\<close>

text \<open>
  What a run of calls does to the record of \<open>k\<close>, and what it replies to the calls
  about \<open>k\<close>, depends on the configuration and on the record of \<open>k\<close> only.
\<close>

lemma perform_local:
  assumes "threshold cb1 = threshold cb2" and "timeout cb1 = timeout cb2"
    and "halfOpenRequests cb1 = halfOpenRequests cb2"
    and "circuits cb1 k = circuits cb2 k"
    and "perform cb1 call = (r1, cb1')" and "perform cb2 call = (r2, cb2')"
  shows "circuits cb1' k = circuits cb2' k \<and> (endpointOf call = Some k \<longrightarrow> r1 = r2)"
  using assms
  by (cases call)
     (auto simp: IsOpen_def CanAttempt_def canAttemptCircuit_def RecordSuccess_def
        recordSuccessCircuit_def RecordFailure_def recordFailureCircuit_def GetState_def
        Reset_def ResetAll_def Let_def
        split: option.splits prod.splits if_splits)

lemma performAll_local:
  "threshold cb1 = threshold cb2 \<Longrightarrow> timeout cb1 = timeout cb2 \<Longrightarrow>
   halfOpenRequests cb1 = halfOpenRequests cb2 \<Longrightarrow> circuits cb1 k = circuits cb2 k \<Longrightarrow>
   repliesFor k cs (fst (performAll cb1 cs)) = repliesFor k cs (fst (performAll cb2 cs))
   \<and> circuits (snd (performAll cb1 cs)) k = circuits (snd (performAll cb2 cs)) k"
proof (induction cs arbitrary: cb1 cb2)
  case Nil
  then show ?case by simp
next
  case (Cons call cs)
  obtain r1 cb1' where p1: "perform cb1 call = (r1, cb1')" by (cases "perform cb1 call")
  obtain r2 cb2' where p2: "perform cb2 call = (r2, cb2')" by (cases "perform cb2 call")
  have loc: "circuits cb1' k = circuits cb2' k \<and> (endpointOf call = Some k \<longrightarrow> r1 = r2)"
    using perform_local [OF Cons.prems p1 p2] .
  have cfg: "threshold cb1' = threshold cb2'" "timeout cb1' = timeout cb2'"
    "halfOpenRequests cb1' = halfOpenRequests cb2'"
    using perform_keeps_config [OF p1] perform_keeps_config [OF p2] Cons.prems by simp_all
  have ih: "repliesFor k cs (fst (performAll cb1' cs)) = repliesFor k cs (fst (performAll cb2' cs))
   \<and> circuits (snd (performAll cb1' cs)) k = circuits (snd (performAll cb2' cs)) k"
    using Cons.IH [OF cfg] loc by simp
  show ?case
    using p1 p2 loc ih by (simp add: split_beta)
qed

text \<open>
  C8. On a key with no record, \<open>RecordSuccess\<close> changes nothing and \<open>RecordFailure\<close>
  acts as on a fresh closed record stored under the key. \<open>Reset\<close> removes the record
  of its key and no other, \<open>ResetAll\<close> every record; after \<open>Reset\<close>, \<open>GetState\<close>
  returns closed and \<open>CanAttempt\<close> permits, and any sequence of calls gets for that key
  the replies, and leaves for that key the record, that a newly constructed breaker of
  the same configuration gives.
\<close>

theorem unseen_key_baseline:
  "(circuits cb k = None \<longrightarrow>
      RecordSuccess cb k = cb
      \<and> RecordFailure cb now now' k
          = RecordFailure (cb\<lparr>circuits := (circuits cb)(k \<mapsto> newCircuit)\<rparr>) now now' k
      \<and> state newCircuit = CircuitBreakerClosed)
   \<and> circuits (Reset cb k) k = None
   \<and> (k' \<noteq> k \<longrightarrow> circuits (Reset cb k) k' = circuits cb k')
   \<and> circuits (ResetAll cb) k = None
   \<and> GetState (Reset cb k) k = CircuitBreakerClosed
   \<and> fst (CanAttempt (Reset cb k) t k) = True
   \<and> repliesFor k cs (fst (performAll (Reset cb k) cs))
       = repliesFor k cs (fst (performAll
           (NewCircuitBreaker (threshold cb) (timeout cb) (halfOpenRequests cb)) cs))
   \<and> repliesFor k cs (fst (performAll (ResetAll cb) cs))
       = repliesFor k cs (fst (performAll
           (NewCircuitBreaker (threshold cb) (timeout cb) (halfOpenRequests cb)) cs))
   \<and> circuits (snd (performAll (Reset cb k) cs)) k
       = circuits (snd (performAll
           (NewCircuitBreaker (threshold cb) (timeout cb) (halfOpenRequests cb)) cs)) k"
proof (intro conjI impI)
  assume "circuits cb k = None"
  then show "RecordSuccess cb k = cb" by (simp add: RecordSuccess_def)
  show "RecordFailure cb now now' k
          = RecordFailure (cb\<lparr>circuits := (circuits cb)(k \<mapsto> newCircuit)\<rparr>) now now' k"
    using \<open>circuits cb k = None\<close> by (simp add: RecordFailure_def recordFailureCircuit_def Let_def)
next
  show "state newCircuit = CircuitBreakerClosed" by (simp add: newCircuit_def)
  show "circuits (Reset cb k) k = None" by (simp add: Reset_def)
  show "circuits (ResetAll cb) k = None" by (simp add: ResetAll_def)
  show "GetState (Reset cb k) k = CircuitBreakerClosed" by (simp add: GetState_def Reset_def)
  show "fst (CanAttempt (Reset cb k) t k) = True" by (simp add: CanAttempt_def Reset_def)
  show "repliesFor k cs (fst (performAll (Reset cb k) cs))
       = repliesFor k cs (fst (performAll
           (NewCircuitBreaker (threshold cb) (timeout cb) (halfOpenRequests cb)) cs))"
    using performAll_local [of "Reset cb k"
        "NewCircuitBreaker (threshold cb) (timeout cb) (halfOpenRequests cb)" k cs]
    by (simp add: Reset_def NewCircuitBreaker_def)
  show "repliesFor k cs (fst (performAll (ResetAll cb) cs))
       = repliesFor k cs (fst (performAll
           (NewCircuitBreaker (threshold cb) (timeout cb) (halfOpenRequests cb)) cs))"
    using performAll_local [of "ResetAll cb"
        "NewCircuitBreaker (threshold cb) (timeout cb) (halfOpenRequests cb)" k cs]
    by (simp add: ResetAll_def NewCircuitBreaker_def)
  show "circuits (snd (performAll (Reset cb k) cs)) k
       = circuits (snd (performAll
           (NewCircuitBreaker (threshold cb) (timeout cb) (halfOpenRequests cb)) cs)) k"
    using performAll_local [of "Reset cb k"
        "NewCircuitBreaker (threshold cb) (timeout cb) (halfOpenRequests cb)" k cs]
    by (simp add: Reset_def NewCircuitBreaker_def)
next
  assume "k' \<noteq> k"
  then show "circuits (Reset cb k) k' = circuits cb k'" by (simp add: Reset_def)
qed

theorem unseen_key_baseline_witness:
  "RecordSuccess (NewCircuitBreaker 3 1000 1) ''/a'' = NewCircuitBreaker 3 1000 1
   \<and> GetState (RecordFailure (NewCircuitBreaker 3 1000 1) 10 11 ''/a'') ''/a''
       = CircuitBreakerClosed
   \<and> repliesFor ''/a''
        [CallRecordFailure 10 11 ''/a'', CallGetState ''/a'', CallCanAttempt 12 ''/a'']
        (fst (performAll (Reset
           \<lparr>circuits = [''/a'' \<mapsto> \<lparr>state = CircuitBreakerHalfOpen, failureCount = 3,
               lastFailureTime = 5, openedAt = 6, halfOpenSuccessCount = 0,
               halfOpenAttempts = 1\<rparr>],
            threshold = 1, timeout = 1000, halfOpenRequests = 1\<rparr> ''/a'')
          [CallRecordFailure 10 11 ''/a'', CallGetState ''/a'', CallCanAttempt 12 ''/a'']))
       = [ReplyNone, ReplyState CircuitBreakerOpen, ReplyBool False]"
proof -
  let ?new = "NewCircuitBreaker 3 1000 1"
  let ?cb = "\<lparr>circuits = [''/a'' \<mapsto> \<lparr>state = CircuitBreakerHalfOpen, failureCount = 3,
               lastFailureTime = 5, openedAt = 6, halfOpenSuccessCount = 0,
               halfOpenAttempts = 1\<rparr>],
            threshold = 1, timeout = 1000, halfOpenRequests = 1\<rparr>"
  let ?cs = "[CallRecordFailure 10 11 ''/a'', CallGetState ''/a'', CallCanAttempt 12 ''/a'']"
  have unseen: "circuits ?new ''/a'' = None"
    by (simp add: NewCircuitBreaker_def)
  have a: "RecordSuccess ?new ''/a'' = ?new"
    using unseen unseen_key_baseline [of ?new "''/a''" 10 11 "''/b''" 12 "[]"] by simp
  have "RecordFailure ?new 10 11 ''/a''
      = RecordFailure (?new\<lparr>circuits := (circuits ?new)(''/a'' \<mapsto> newCircuit)\<rparr>) 10 11 ''/a''"
    using unseen unseen_key_baseline [of ?new "''/a''" 10 11 "''/b''" 12 "[]"] by simp
  then have b: "GetState (RecordFailure ?new 10 11 ''/a'') ''/a'' = CircuitBreakerClosed"
    by (simp add: NewCircuitBreaker_def newCircuit_def RecordFailure_def
        recordFailureCircuit_def GetState_def Let_def word_sle_eq)
  have "repliesFor ''/a'' ?cs (fst (performAll (Reset ?cb ''/a'') ?cs))
      = repliesFor ''/a'' ?cs (fst (performAll (NewCircuitBreaker 1 1000 1) ?cs))"
    using unseen_key_baseline [of ?cb "''/a''" 10 11 "''/b''" 12 ?cs] by simp
  also have "\<dots> = [ReplyNone, ReplyState CircuitBreakerOpen, ReplyBool False]"
    by (simp add: NewCircuitBreaker_def newCircuit_def RecordFailure_def
        recordFailureCircuit_def GetState_def CanAttempt_def canAttemptCircuit_def Let_def
        Since_def maxDuration_def minDuration_def word_sle_eq)
  finally show ?thesis using a b by simp
qed

section \<open>The retry decision\<close>

lemma retryOnStatusCode_set: "retryOnStatusCode codes statusCode \<longleftrightarrow> statusCode \<in> set codes"
  by (induction codes) auto

text \<open>
  C5. \<open>ShouldRetry\<close> returns true exactly when the attempt index is strictly less
  than \<open>MaxRetries\<close> and either there was a transport error or the status code is in
  the retry set: the codes from 500 up to but not including 600, and the configured
  additional codes.
\<close>

theorem should_retry_iff:
  "ShouldRetry options attempt statusCode err \<longleftrightarrow>
     attempt <s MaxRetries options
     \<and> (err \<noteq> None
        \<or> statusCode \<in> {c. 500 \<le>s c \<and> c <s 600} \<union> set (RetryOnStatusCodes options))"
  by (auto simp: ShouldRetry_def ShouldRetryStatus_def retryOnStatusCode_set
      word_sle_eq word_sless_alt)

theorem should_retry_iff_witness:
  "ShouldRetry (NewRetryOptions\<lparr>RetryOnStatusCodes := [429]\<rparr>) 2 429 (None :: unit option)
   \<and> ShouldRetry NewRetryOptions 0 503 (None :: unit option)
   \<and> ShouldRetry NewRetryOptions 2 200 (Some ())
   \<and> \<not> ShouldRetry NewRetryOptions 3 503 (Some ())
   \<and> \<not> ShouldRetry NewRetryOptions 0 404 (None :: unit option)"
  using should_retry_iff [of "NewRetryOptions\<lparr>RetryOnStatusCodes := [429]\<rparr>" 2 429 "None :: unit option"]
    should_retry_iff [of NewRetryOptions 0 503 "None :: unit option"]
    should_retry_iff [of NewRetryOptions 2 200 "Some ()"]
    should_retry_iff [of NewRetryOptions 3 503 "Some ()"]
    should_retry_iff [of NewRetryOptions 0 404 "None :: unit option"]
  by (simp add: NewRetryOptions_def word_sle_eq word_sless_alt)

section \<open>Rounding to \<open>float64\<close>\<close>

text \<open>The exponent brackets its argument, and is the only integer that does.\<close>

lemma bitlen_pos: "0 < n \<Longrightarrow> 1 \<le> bitlen n"
  using bitlen_bounds [of n] by (cases "bitlen n \<le> 0") auto

lemma ilog2_bounds:
  assumes "0 < x"
  shows "2 powi (ilog2 x) \<le> x \<and> x < 2 powi (ilog2 x + 1)"
proof (cases "1 \<le> x")
  case True
  define n where "n = \<lfloor>x\<rfloor>"
  define k where "k = nat (bitlen n - 1)"
  have pos: "0 < n" using True by (simp add: n_def)
  have bl: "bitlen n = int k + 1" using bitlen_pos [OF pos] by (simp add: k_def)
  have "nat (bitlen n - 1) = k" and "nat (bitlen n) = k + 1"
    using bl by simp_all
  with bitlen_bounds [OF pos]
  have a: "2 ^ k \<le> n" and b: "n < 2 ^ (k + 1)"
    by simp_all
  have e: "ilog2 x = int k" using True bl by (simp add: ilog2_def n_def)
  have "(of_int n :: rat) \<le> x" using floor_correct [of x] by (simp add: n_def)
  moreover have "(2::rat) ^ k \<le> of_int n"
    using a by (metis of_int_le_iff of_int_numeral of_int_power)
  ultimately have lo: "(2::rat) ^ k \<le> x" by (rule order_trans [rotated])
  have "n + 1 \<le> 2 ^ (k + 1)" using b by simp
  then have "(of_int (n + 1) :: rat) \<le> 2 ^ (k + 1)"
    by (metis of_int_le_iff of_int_numeral of_int_power)
  moreover have "x < of_int (n + 1)" using floor_correct [of x] by (simp add: n_def)
  ultimately have hi: "x < (2::rat) ^ (k + 1)" by (rule less_le_trans [rotated])
  show ?thesis using lo hi e by (simp add: power_int_add)
next
  case False
  define y where "y = 1 / x"
  define n where "n = \<lceil>y\<rceil> - 1"
  define k where "k = nat (bitlen n - 1)"
  have y1: "1 < y" using False assms by (simp add: y_def)
  have pos: "0 < n" using y1 by (simp add: n_def)
  have bl: "bitlen n = int k + 1" using bitlen_pos [OF pos] by (simp add: k_def)
  have "nat (bitlen n - 1) = k" and "nat (bitlen n) = k + 1"
    using bl by simp_all
  with bitlen_bounds [OF pos]
  have a: "2 ^ k \<le> n" and b: "n < 2 ^ (k + 1)"
    by simp_all
  have e: "ilog2 x = - (int k + 1)" using False bl by (simp add: ilog2_def n_def y_def)
  have "(of_int n :: rat) < y" using ceiling_correct [of y] by (simp add: n_def)
  moreover have "(2::rat) ^ k \<le> of_int n"
    using a by (metis of_int_le_iff of_int_numeral of_int_power)
  ultimately have lo: "(2::rat) ^ k < y" by (rule le_less_trans [rotated])
  have "n + 1 \<le> 2 ^ (k + 1)" using b by simp
  then have "(of_int (n + 1) :: rat) \<le> 2 ^ (k + 1)"
    by (metis of_int_le_iff of_int_numeral of_int_power)
  moreover have "y \<le> of_int (n + 1)" using ceiling_correct [of y] by (simp add: n_def)
  ultimately have hi: "y \<le> (2::rat) ^ (k + 1)" by (rule order_trans [rotated])
  have xinv: "x = 1 / y" using assms by (simp add: y_def)
  have "2 powi (- int (k + 1)) = 1 / (2::rat) powi (int (k + 1))"
    by (rule power_int_minus_divide)
  then have p1: "2 powi (- (int k + 1)) = 1 / (2::rat) ^ (k + 1)"
    by (simp only: power_int_of_nat) (simp add: add.commute)
  have "2 powi (- int k) = 1 / (2::rat) powi (int k)"
    by (rule power_int_minus_divide)
  then have p2: "2 powi (- (int k + 1) + 1) = 1 / (2::rat) ^ k"
    by (simp only: power_int_of_nat) simp
  have lo': "1 / (2::rat) ^ (k + 1) \<le> 1 / y"
    using hi y1 by (intro divide_left_mono) (auto simp: field_simps)
  have hi': "1 / y < 1 / (2::rat) ^ k"
    using lo y1 by (intro divide_strict_left_mono) (auto intro: mult_pos_pos)
  from lo' hi' have "1 / (2::rat) ^ (k + 1) \<le> x" and "x < 1 / (2::rat) ^ k"
    unfolding xinv [symmetric] by simp_all
  then show ?thesis
    unfolding e p1 p2 by simp
qed

lemma pow2_le: "a \<le> b \<Longrightarrow> (2::rat) powi a \<le> 2 powi b"
  by (rule power_int_increasing) simp_all

lemma ilog2_unique:
  assumes "0 < x" and "2 powi e \<le> x" and "x < 2 powi (e + 1)"
  shows "ilog2 x = e"
proof -
  from ilog2_bounds [OF assms(1)]
  have a: "2 powi (ilog2 x) \<le> x" and b: "x < 2 powi (ilog2 x + 1)" by simp_all
  have "\<not> e + 1 \<le> ilog2 x"
  proof
    assume "e + 1 \<le> ilog2 x"
    from pow2_le [OF this] a assms(3) show False by simp
  qed
  moreover have "\<not> ilog2 x + 1 \<le> e"
  proof
    assume "ilog2 x + 1 \<le> e"
    from pow2_le [OF this] b assms(2) show False by simp
  qed
  ultimately show ?thesis by simp
qed

lemma ilog2_mono:
  assumes "0 < x" and "x \<le> y"
  shows "ilog2 x \<le> ilog2 y"
proof (rule ccontr)
  assume "\<not> ilog2 x \<le> ilog2 y"
  then have "ilog2 y + 1 \<le> ilog2 x" by simp
  from pow2_le [OF this] ilog2_bounds [OF assms(1)] ilog2_bounds [of y] assms
  show False by simp
qed

lemma ilog2_lt: "0 < x \<Longrightarrow> x < 2 powi e \<Longrightarrow> ilog2 x < e"
proof (rule ccontr)
  assume h: "0 < x" "x < 2 powi e" "\<not> ilog2 x < e"
  then have "e \<le> ilog2 x" by simp
  from pow2_le [OF this] ilog2_bounds [OF h(1)] h(2) show False by simp
qed

lemma roundHalfEven_of_int [simp]: "roundHalfEven (of_int n) = n"
  by (simp add: roundHalfEven_def)

lemma roundHalfEven_lower: "\<lfloor>y\<rfloor> \<le> roundHalfEven y"
  by (simp add: roundHalfEven_def Let_def)

lemma roundHalfEven_upper: "roundHalfEven y \<le> \<lfloor>y\<rfloor> + 1"
  by (simp add: roundHalfEven_def Let_def)

lemma roundHalfEven_mono:
  assumes "y \<le> z"
  shows "roundHalfEven y \<le> roundHalfEven z"
proof (cases "\<lfloor>y\<rfloor> = \<lfloor>z\<rfloor>")
  case True
  with assms show ?thesis
    by (auto simp: roundHalfEven_def Let_def)
next
  case False
  with assms have "\<lfloor>y\<rfloor> + 1 \<le> \<lfloor>z\<rfloor>"
    using floor_mono [OF assms] by simp
  with roundHalfEven_upper [of y] roundHalfEven_lower [of z] show ?thesis by simp
qed

lemma roundHalfEven_minus: "roundHalfEven (- y) = - roundHalfEven y"
proof (cases "y \<in> \<int>")
  case True
  then obtain n where "y = of_int n" by (auto elim: Ints_cases)
  then show ?thesis by (simp flip: of_int_minus)
next
  case False
  then have ne: "y \<noteq> of_int \<lfloor>y\<rfloor>"
    by (metis Ints_of_int)
  then have fl: "\<lfloor>- y\<rfloor> = - \<lfloor>y\<rfloor> - 1"
    by (simp add: floor_minus ceiling_altdef)
  define f where "f = \<lfloor>y\<rfloor>"
  define d where "d = y - of_int f"
  have d: "0 < d" "d < 1"
    using ne of_int_floor_le [of y] floor_correct [of y] unfolding d_def f_def
    by linarith+
  have dm: "- y - of_int (- f - 1) = 1 - d" by (simp add: d_def)
  show ?thesis
    unfolding roundHalfEven_def Let_def fl
    unfolding f_def [symmetric] dm
    unfolding d_def [symmetric]
    using d by auto
qed

text \<open>
  Rounding is odd, leaves the values \<open>m \<cdot> 2\<^sup>q\<close> with \<open>\<bar>m\<bar> \<le> 2\<^sup>5\<^sup>3\<close> and
  \<open>q \<ge> -1074\<close> as they are, produces only such values, and is monotone.
\<close>

lemma quantum_qexp: "quantum x = 2 powi qexp x"
  by (simp add: quantum_def)

lemma quantum_pos [simp]: "0 < quantum x"
  by (simp add: quantum_def)

lemma quantum_minus [simp]: "quantum (- x) = quantum x"
  by (simp add: quantum_def qexp_def)

lemma roundFinite_minus: "roundFinite (- x) = - roundFinite x"
  by (simp add: roundFinite_def roundHalfEven_minus)

lemma roundFinite_zero [simp]: "roundFinite 0 = 0"
  by (simp add: roundFinite_def)

lemma roundFinite_fixed:
  assumes "x / quantum x = of_int n"
  shows "roundFinite x = x"
proof -
  have "x = of_int n * quantum x"
    using assms quantum_pos [of x] by (simp add: field_simps)
  then show ?thesis
    using assms by (simp add: roundFinite_def)
qed

lemma pow2_div: "b \<le> a \<Longrightarrow> (2::rat) powi a / 2 powi b = of_int (2 ^ nat (a - b))"
proof -
  assume "b \<le> a"
  then have "(2::rat) powi a = 2 powi (a - b) * 2 powi b"
    by (simp flip: power_int_add)
  moreover have "(2::rat) powi (a - b) = 2 ^ nat (a - b)"
    using \<open>b \<le> a\<close> by (simp add: power_int_nonneg_exp)
  ultimately show ?thesis by simp
qed

lemma roundFinite_exact:
  assumes m: "\<bar>m\<bar> \<le> 2 ^ 53" and q: "- 1074 \<le> q"
  shows "roundFinite (of_int m * 2 powi q) = of_int m * 2 powi q"
proof (cases "m = 0")
  case True
  then show ?thesis by simp
next
  case False
  define x :: rat where "x = of_int m * 2 powi q"
  have ax: "\<bar>x\<bar> = of_int \<bar>m\<bar> * 2 powi q"
    by (simp add: x_def abs_mult)
  have xpos: "0 < \<bar>x\<bar>" using False by (simp add: x_def)
  show ?thesis
  proof (cases "\<bar>m\<bar> = 2 ^ 53")
    case True
    then have "\<bar>x\<bar> = 2 powi (53 + q)"
      by (simp add: ax power_int_add)
    then have "ilog2 \<bar>x\<bar> = 53 + q"
      by (intro ilog2_unique) (simp_all add: power_int_add)
    then have qe: "qexp x = q + 1" using q by (simp add: qexp_def)
    obtain k where k: "m = 2 * k"
      using True by (cases "0 \<le> m") (auto simp: abs_if intro: that [of "2 ^ 52"] that [of "- (2 ^ 52)"])
    have qx: "quantum x = 2 * 2 powi q"
      by (simp add: quantum_qexp qe power_int_add)
    have xk: "x = of_int k * (2 * 2 powi q)"
      by (simp add: x_def k)
    have "x / quantum x = (of_int k * (2 * 2 powi q)) / (2 * 2 powi q)"
      by (simp only: qx xk [symmetric])
    then have "x / quantum x = of_int k" by simp
    then show ?thesis unfolding x_def [symmetric] by (rule roundFinite_fixed)
  next
    case False
    with m have "\<bar>m\<bar> < 2 ^ 53" by simp
    then have "(of_int \<bar>m\<bar> :: rat) < 2 ^ 53"
      by (metis of_int_less_iff of_int_numeral of_int_power)
    then have "\<bar>x\<bar> < 2 ^ 53 * 2 powi q"
      unfolding ax by (intro mult_strict_right_mono) simp_all
    then have "\<bar>x\<bar> < 2 powi (53 + q)"
      by (simp add: power_int_add)
    from ilog2_lt [OF xpos this] have "ilog2 \<bar>x\<bar> - 52 \<le> q" by simp
    with q have le: "qexp x \<le> q" by (simp add: qexp_def)
    have "x / quantum x = of_int m * (2 powi q / 2 powi qexp x)"
      by (simp only: quantum_qexp) (simp add: x_def)
    also have "\<dots> = of_int (m * 2 ^ nat (q - qexp x))"
      by (simp add: pow2_div [OF le])
    finally show ?thesis unfolding x_def [symmetric] by (rule roundFinite_fixed)
  qed
qed

lemma quantum_nonneg [simp]: "0 \<le> quantum x"
  by (simp add: quantum_def)

lemma qexp_lower: "- 1074 \<le> qexp x"
  by (simp add: qexp_def)

lemma scaled_less:
  assumes "x \<noteq> 0"
  shows "\<bar>x\<bar> / quantum x < 2 ^ 53"
proof -
  have pos: "0 < \<bar>x\<bar>" using assms by simp
  have "ilog2 \<bar>x\<bar> + 1 \<le> qexp x + 53" by (simp add: qexp_def)
  from pow2_le [OF this] ilog2_bounds [OF pos]
  have "\<bar>x\<bar> < 2 powi (qexp x + 53)" by simp
  also have "\<dots> = 2 ^ 53 * quantum x"
    by (simp add: quantum_qexp power_int_add)
  finally show ?thesis by (simp add: field_simps)
qed

lemma roundFinite_form:
  "\<exists>m. roundFinite x = of_int m * 2 powi qexp x \<and> \<bar>m\<bar> \<le> 2 ^ 53"
proof (cases "x = 0")
  case True
  then show ?thesis by (intro exI [of _ 0]) simp
next
  case False
  define m where "m = roundHalfEven (x / quantum x)"
  have eq: "roundFinite x = of_int m * 2 powi qexp x"
    using False by (simp add: roundFinite_def m_def quantum_qexp)
  from scaled_less [OF False]
  have "x / quantum x \<le> 2 ^ 53" and "- (2 ^ 53) \<le> x / quantum x"
    by (simp_all add: abs_if field_simps split: if_splits)
  then have "x / quantum x \<le> of_int (2 ^ 53)" and "of_int (- (2 ^ 53)) \<le> x / quantum x"
    by simp_all
  from roundHalfEven_mono [OF this(1)] roundHalfEven_mono [OF this(2)]
  have "m \<le> 2 ^ 53" and "- (2 ^ 53) \<le> m"
    unfolding m_def roundHalfEven_of_int by simp_all
  then have "\<bar>m\<bar> \<le> 2 ^ 53" by simp
  with eq show ?thesis by blast
qed

lemma roundFinite_idem: "roundFinite (roundFinite x) = roundFinite x"
proof -
  obtain m where m: "roundFinite x = of_int m * 2 powi qexp x" "\<bar>m\<bar> \<le> 2 ^ 53"
    using roundFinite_form by blast
  show ?thesis
    unfolding m(1) by (rule roundFinite_exact [OF m(2) qexp_lower])
qed

lemma roundFinite_nonneg: "0 \<le> x \<Longrightarrow> 0 \<le> roundFinite x"
proof -
  assume "0 \<le> x"
  then have "of_int 0 \<le> x / quantum x" by (simp add: divide_nonneg_pos)
  from roundHalfEven_mono [OF this] have "0 \<le> roundHalfEven (x / quantum x)"
    unfolding roundHalfEven_of_int .
  then have "0 \<le> (of_int (roundHalfEven (x / quantum x)) :: rat) * quantum x"
    by (intro mult_nonneg_nonneg) simp_all
  then show ?thesis by (simp add: roundFinite_def)
qed

lemma roundFinite_mono_pos:
  assumes "0 < x" and "x \<le> y"
  shows "roundFinite x \<le> roundFinite y"
proof -
  have ypos: "0 < y" using assms by simp
  have ax: "\<bar>x\<bar> = x" and ay: "\<bar>y\<bar> = y" using assms by simp_all
  have le: "qexp x \<le> qexp y"
    using ilog2_mono [OF assms] by (simp add: qexp_def ax ay)
  have rx: "roundFinite x = of_int (roundHalfEven (x / quantum x)) * quantum x"
    using assms by (simp add: roundFinite_def)
  have ry: "roundFinite y = of_int (roundHalfEven (y / quantum y)) * quantum y"
    using ypos by (simp add: roundFinite_def)
  show ?thesis
  proof (cases "qexp x = qexp y")
    case True
    then have q: "quantum x = quantum y" by (simp add: quantum_qexp)
    have "x / quantum y \<le> y / quantum y"
      using assms by (simp add: divide_right_mono)
    from roundHalfEven_mono [OF this] show ?thesis
      unfolding rx ry q by (simp add: mult_right_mono)
  next
    case False
    with le have lt: "qexp x < qexp y" by simp
    then have qy: "qexp y = ilog2 y - 52"
      using qexp_lower [of x] unfolding qexp_def ay by linarith
    have "ilog2 x - 52 \<le> qexp x" by (simp add: qexp_def ax)
    with lt qy have elt: "ilog2 x + 1 \<le> ilog2 y" by simp
    define e where "e = ilog2 y"
    have xlt: "x \<le> 2 powi e"
      using ilog2_bounds [OF assms(1)] pow2_le [OF elt] by (simp add: e_def)
    have yge: "2 powi e \<le> y"
      using ilog2_bounds [OF ypos] by (simp add: e_def)
    have d1: "qexp x \<le> e" using lt qy by (simp add: e_def)
    have d2: "qexp y \<le> e" using qy by (simp add: e_def)
    have "x / quantum x \<le> 2 powi e / 2 powi qexp x"
      using xlt by (simp add: quantum_qexp divide_right_mono)
    then have "x / quantum x \<le> of_int (2 ^ nat (e - qexp x))"
      by (simp only: pow2_div [OF d1])
    from roundHalfEven_mono [OF this]
    have "roundHalfEven (x / quantum x) \<le> 2 ^ nat (e - qexp x)"
      unfolding roundHalfEven_of_int .
    then have "(of_int (roundHalfEven (x / quantum x)) :: rat) \<le> of_int (2 ^ nat (e - qexp x))"
      by (simp only: of_int_le_iff)
    then have "roundFinite x \<le> of_int (2 ^ nat (e - qexp x)) * quantum x"
      unfolding rx by (intro mult_right_mono) simp_all
    also have "\<dots> = 2 powi e"
      using pow2_div [OF d1, symmetric] by (simp add: quantum_qexp)
    finally have a: "roundFinite x \<le> 2 powi e" .
    have "2 powi e / 2 powi qexp y \<le> y / quantum y"
      using yge by (simp add: quantum_qexp divide_right_mono)
    then have "of_int (2 ^ nat (e - qexp y)) \<le> y / quantum y"
      by (simp only: pow2_div [OF d2])
    from roundHalfEven_mono [OF this]
    have "2 ^ nat (e - qexp y) \<le> roundHalfEven (y / quantum y)"
      unfolding roundHalfEven_of_int .
    then have "(of_int (2 ^ nat (e - qexp y)) :: rat) \<le> of_int (roundHalfEven (y / quantum y))"
      by (simp only: of_int_le_iff)
    then have "of_int (2 ^ nat (e - qexp y)) * quantum y \<le> roundFinite y"
      unfolding ry by (intro mult_right_mono) simp_all
    moreover have "of_int (2 ^ nat (e - qexp y)) * quantum y = 2 powi e"
      using pow2_div [OF d2, symmetric] by (simp add: quantum_qexp)
    ultimately have b: "2 powi e \<le> roundFinite y" by simp
    from a b show ?thesis by simp
  qed
qed

lemma roundFinite_mono:
  assumes "x \<le> y"
  shows "roundFinite x \<le> roundFinite y"
proof -
  consider "0 < x" | "x \<le> 0" "0 \<le> y" | "y < 0" by linarith
  then show ?thesis
  proof cases
    case 1
    then show ?thesis using assms by (rule roundFinite_mono_pos)
  next
    case 2
    have "0 \<le> roundFinite (- x)" using 2 by (intro roundFinite_nonneg) simp
    then have "roundFinite x \<le> 0" by (simp add: roundFinite_minus)
    with roundFinite_nonneg [OF 2(2)] show ?thesis by simp
  next
    case 3
    have "roundFinite (- y) \<le> roundFinite (- x)"
      using 3 assms by (intro roundFinite_mono_pos) simp_all
    then show ?thesis by (simp add: roundFinite_minus)
  qed
qed

lemma roundFinite_pow2 [simp]: "roundFinite (2 ^ k) = 2 ^ k"
  using roundFinite_exact [of 1 "int k"] by simp

lemma roundFinite_two [simp]: "roundFinite 2 = 2"
  using roundFinite_pow2 [of 1] by simp

lemma roundFinite_abs_le:
  assumes "\<bar>x\<bar> \<le> 2 ^ k"
  shows "\<bar>roundFinite x\<bar> \<le> 2 ^ k"
proof -
  from assms have "x \<le> 2 ^ k" and "- (2 ^ k) \<le> x" by (simp_all add: abs_le_iff) 
  from roundFinite_mono [OF this(1)] roundFinite_mono [OF this(2)]
  show ?thesis by (simp add: roundFinite_minus abs_le_iff)
qed

lemma overflow_Finite:
  assumes "\<bar>y\<bar> \<le> 2 ^ 1023"
  shows "overflow y = Finite y"
proof (cases "y = 0")
  case True
  then show ?thesis by (simp add: overflow_def)
next
  case False
  then have pos: "0 < \<bar>y\<bar>" by simp
  have "(2::rat) ^ 1023 < 2 ^ 1024" by (rule power_strict_increasing) simp_all
  with assms have "\<bar>y\<bar> < 2 ^ 1024" by (rule le_less_trans)
  then have "\<bar>y\<bar> < 2 powi 1024" by simp
  from ilog2_lt [OF pos this] show ?thesis using False by (simp add: overflow_def)
qed

lemma rnd_Finite: "\<bar>x\<bar> \<le> 2 ^ 1023 \<Longrightarrow> rnd x = Finite (roundFinite x)"
  unfolding rnd_def by (rule overflow_Finite) (rule roundFinite_abs_le)

lemma rnd_exact:
  assumes "\<bar>m\<bar> \<le> 2 ^ 53" and "- 1074 \<le> q" and "\<bar>of_int m * 2 powi q :: rat\<bar> \<le> 2 ^ 1023"
  shows "rnd (of_int m * 2 powi q) = Finite (of_int m * 2 powi q)"
  using rnd_Finite [OF assms(3)] roundFinite_exact [OF assms(1,2)] by simp

lemma roundFinite_double: "roundFinite (2 * roundFinite x) = 2 * roundFinite x"
proof -
  obtain m where m: "roundFinite x = of_int m * 2 powi qexp x" "\<bar>m\<bar> \<le> 2 ^ 53"
    using roundFinite_form by blast
  have "2 * roundFinite x = of_int m * 2 powi (qexp x + 1)"
    by (simp add: m(1) power_int_add)
  moreover have "- 1074 \<le> qexp x + 1" using qexp_lower [of x] by simp
  ultimately show ?thesis
    using roundFinite_exact [OF m(2), of "qexp x + 1"] by simp
qed

lemma truncateRat_of_int [simp]: "truncateRat (of_int n) = n"
  by (simp add: truncateRat_def)

lemma sint_word_of_int_64:
  "- (2 ^ 63) \<le> k \<Longrightarrow> k < 2 ^ 63 \<Longrightarrow> sint (word_of_int k :: 64 word) = k"
  by (simp add: sint_sbintrunc' signed_take_bit_int_eq_self)

section \<open>Backoff without jitter\<close>

text \<open>
  Within the range of \<open>int64\<close> the strategies compute what their names say: the
  \<open>float64\<close> computation of the exponential strategy is exact for an initial delay
  of at most \<open>2\<^sup>5\<^sup>3\<close> nanoseconds, and the product of the linear strategy does not
  wrap.
\<close>

lemma rat_le_pow2: "\<bar>k\<bar> \<le> 2 ^ a \<Longrightarrow> a \<le> b \<Longrightarrow> \<bar>of_int k :: rat\<bar> \<le> 2 ^ b"
proof -
  assume h: "\<bar>k\<bar> \<le> 2 ^ a" "a \<le> b"
  have "\<bar>of_int k :: rat\<bar> = of_int \<bar>k\<bar>" by simp
  also have "\<dots> \<le> of_int (2 ^ a)" using h(1) by (simp only: of_int_le_iff)
  also have "\<dots> = 2 ^ a" by simp
  also have "\<dots> \<le> 2 ^ b" using h(2) by (intro power_increasing) simp_all
  finally show ?thesis .
qed

lemma rnd_of_int:
  assumes "\<bar>k\<bar> \<le> 2 ^ 53"
  shows "rnd (of_int k) = Finite (of_int k)"
  using rnd_exact [OF assms, of 0] rat_le_pow2 [OF assms, of 1023] by simp

lemma float64OfInt64_exact:
  "\<bar>sint d\<bar> \<le> 2 ^ 53 \<Longrightarrow> float64OfInt64 d = Finite (of_int (sint d))"
  unfolding float64OfInt64_def by (rule rnd_of_int)

lemma mathPow2_exact:
  assumes "0 \<le> n" and "n \<le> 1023"
  shows "mathPow2 (Finite (of_int n)) = Finite (2 ^ nat n)"
proof -
  have p: "(2::rat) powi n = 2 ^ nat n"
    using assms by (simp add: power_int_nonneg_exp)
  have "(2::rat) ^ nat n \<le> 2 ^ 1023"
    using assms by (intro power_increasing) simp_all
  then have "rnd (of_int 1 * 2 powi n) = Finite (of_int 1 * 2 powi n)"
    using assms by (intro rnd_exact) (simp_all add: p)
  then show ?thesis by (simp add: mathPow2_def p)
qed

lemma exponential_exact:
  assumes n: "0 \<le> sint attempt" "sint attempt \<le> 1023"
    and d: "\<bar>sint (InitialDelay options)\<bar> \<le> 2 ^ 53"
    and r: "\<bar>sint (InitialDelay options)\<bar> * 2 ^ nat (sint attempt) < 2 ^ 63"
  shows "sint (calculateExponentialBackoff p options attempt)
       = sint (InitialDelay options) * 2 ^ nat (sint attempt)"
proof -
  define D where "D = sint (InitialDelay options)"
  define N where "N = sint attempt"
  define K where "K = D * 2 ^ nat N"
  have absK: "\<bar>K\<bar> < 2 ^ 63" using r by (simp add: K_def D_def N_def abs_mult)
  have fa: "float64OfInt64 attempt = Finite (of_int N)"
    unfolding N_def using n by (intro float64OfInt64_exact) simp
  have pw: "mathPow2 (Finite (of_int N)) = Finite (2 ^ nat N)"
    using n by (intro mathPow2_exact) (simp_all add: N_def)
  have fd: "float64OfInt64 (InitialDelay options) = Finite (of_int D)"
    unfolding D_def using d by (rule float64OfInt64_exact)
  have Krat: "(of_int D :: rat) * 2 powi N = of_int K"
    using n by (simp add: K_def N_def power_int_nonneg_exp)
  have "\<bar>of_int K :: rat\<bar> \<le> 2 ^ 1023"
    using absK by (intro rat_le_pow2 [of K 63]) simp_all
  then have bound: "\<bar>of_int D * 2 powi N :: rat\<bar> \<le> 2 ^ 1023"
    unfolding Krat .
  have dD: "\<bar>D\<bar> \<le> 2 ^ 53" using d unfolding D_def .
  have nN: "- 1074 \<le> N" using n unfolding N_def by linarith
  have "rnd (of_int D * 2 powi N) = Finite (of_int D * 2 powi N)"
    using dD nN bound by (rule rnd_exact)
  then have "rnd (of_int K) = Finite (of_int K)"
    unfolding Krat .
  moreover have "(of_int D :: rat) * 2 ^ nat N = of_int K"
    by (simp add: K_def)
  ultimately have "rnd (of_int D * 2 ^ nat N) = Finite (of_int K)"
    by simp
  then have "fmul (Finite (of_int D)) (Finite (2 ^ nat N)) = Finite (of_int K)"
    by (simp add: fmul_def)
  moreover have rng: "- (2 ^ 63) \<le> K" "K < 2 ^ 63" using absK by linarith+
  ultimately have "calculateExponentialBackoff p options attempt = word_of_int K"
    by (simp add: calculateExponentialBackoff_def fa pw fd durationOfFloat64_def)
  then have "sint (calculateExponentialBackoff p options attempt) = K"
    using sint_word_of_int_64 [OF rng] by simp
  then show ?thesis
    unfolding K_def D_def N_def .
qed

lemma linear_exact:
  assumes "sint attempt < 2 ^ 63 - 1"
    and "- (2 ^ 63) \<le> sint (InitialDelay options) * (sint attempt + 1)"
    and "sint (InitialDelay options) * (sint attempt + 1) < 2 ^ 63"
  shows "sint (calculateLinearBackoff options attempt)
       = sint (InitialDelay options) * (sint attempt + 1)"
proof -
  have "- (2 ^ 63) \<le> sint attempt + 1" using sint_ge [of attempt] by simp
  moreover have "sint attempt + 1 < 2 ^ 63" using assms(1) by simp
  ultimately have a: "signed_take_bit 63 (sint attempt + 1) = sint attempt + 1"
    by (rule signed_take_bit_int_eq_self)
  have b: "signed_take_bit 63 (sint (InitialDelay options) * (sint attempt + 1))
      = sint (InitialDelay options) * (sint attempt + 1)"
    using assms(2,3) by (rule signed_take_bit_int_eq_self)
  show ?thesis
    unfolding calculateLinearBackoff_def
    by (simp add: sint_word_ariths a b)
qed

lemma sint_cap:
  "sint (if m <s d then m else d) = min (sint d) (sint (m :: 64 word))"
  by (simp add: word_sless_alt min_def)

lemma calculate_delay_in_range:
  "(Jitter options \<longrightarrow>
      CalculateDelay p options u attempt
        = applyJitter p options u (CalculateDelay p (options\<lparr>Jitter := False\<rparr>) u attempt))
   \<and> (\<not> Jitter options \<and> Backoff options = BackoffFixed \<longrightarrow>
      sint (CalculateDelay p options u attempt)
        = min (sint (InitialDelay options)) (sint (MaxDelay options)))
   \<and> (\<not> Jitter options \<and> Backoff options = BackoffLinear
        \<and> sint attempt < 2 ^ 63 - 1
        \<and> - (2 ^ 63) \<le> sint (InitialDelay options) * (sint attempt + 1)
        \<and> sint (InitialDelay options) * (sint attempt + 1) < 2 ^ 63 \<longrightarrow>
      sint (CalculateDelay p options u attempt)
        = min (sint (InitialDelay options) * (sint attempt + 1)) (sint (MaxDelay options)))
   \<and> (\<not> Jitter options \<and> Backoff options = BackoffExponential
        \<and> 0 \<le> sint attempt \<and> sint attempt \<le> 1023
        \<and> \<bar>sint (InitialDelay options)\<bar> \<le> 2 ^ 53
        \<and> \<bar>sint (InitialDelay options)\<bar> * 2 ^ nat (sint attempt) < 2 ^ 63 \<longrightarrow>
      sint (CalculateDelay p options u attempt)
        = min (sint (InitialDelay options) * 2 ^ nat (sint attempt))
            (sint (MaxDelay options)))"
proof (intro conjI impI)
  assume "Jitter options"
  then show "CalculateDelay p options u attempt
        = applyJitter p options u (CalculateDelay p (options\<lparr>Jitter := False\<rparr>) u attempt)"
    by (simp add: CalculateDelay_def Let_def calculateExponentialBackoff_def
        calculateLinearBackoff_def applyJitter_def jitterFractionOf_def)
next
  assume "\<not> Jitter options \<and> Backoff options = BackoffFixed"
  then show "sint (CalculateDelay p options u attempt)
        = min (sint (InitialDelay options)) (sint (MaxDelay options))"
    by (simp add: CalculateDelay_def Let_def sint_cap BackoffFixed_def BackoffLinear_def
        BackoffExponential_def)
next
  assume h: "\<not> Jitter options \<and> Backoff options = BackoffLinear
        \<and> sint attempt < 2 ^ 63 - 1
        \<and> - (2 ^ 63) \<le> sint (InitialDelay options) * (sint attempt + 1)
        \<and> sint (InitialDelay options) * (sint attempt + 1) < 2 ^ 63"
  then have "sint (calculateLinearBackoff options attempt)
       = sint (InitialDelay options) * (sint attempt + 1)"
    by (intro linear_exact) simp_all
  with h show "sint (CalculateDelay p options u attempt)
        = min (sint (InitialDelay options) * (sint attempt + 1)) (sint (MaxDelay options))"
    by (simp add: CalculateDelay_def Let_def sint_cap BackoffLinear_def BackoffExponential_def)
next
  assume h: "\<not> Jitter options \<and> Backoff options = BackoffExponential
        \<and> 0 \<le> sint attempt \<and> sint attempt \<le> 1023
        \<and> \<bar>sint (InitialDelay options)\<bar> \<le> 2 ^ 53
        \<and> \<bar>sint (InitialDelay options)\<bar> * 2 ^ nat (sint attempt) < 2 ^ 63"
  then have "sint (calculateExponentialBackoff p options attempt)
       = sint (InitialDelay options) * 2 ^ nat (sint attempt)"
    by (intro exponential_exact) simp_all
  with h show "sint (CalculateDelay p options u attempt)
        = min (sint (InitialDelay options) * 2 ^ nat (sint attempt))
            (sint (MaxDelay options))"
    by (simp add: CalculateDelay_def Let_def sint_cap)
qed

text \<open>
  C2. With jitter disabled \<open>CalculateDelay\<close> is meant to return the strategy value
  clamped to \<open>MaxDelay\<close>: \<open>d \<cdot> 2\<^sup>n\<close>, \<open>d \<cdot> (n+1)\<close> or \<open>d\<close>, replaced by
  \<open>MaxDelay\<close> when larger. It does so while the strategy value fits in an \<open>int64\<close>
  (\<open>calculate_delay_in_range\<close>), and not beyond: with the default options, 100 ms
  doubling and a cap of 30 s, attempt 36 is capped to 30 s, but at attempt 37 the
  \<open>float64\<close> product is past the range of \<open>int64\<close> and on amd64 the delay is the
  smallest \<open>int64\<close>, which the cap lets through; with the linear strategy the product
  \<open>d \<cdot> (n+1)\<close> wraps to a negative delay at attempt 92233720368, on every platform.
\<close>

theorem calculate_delay_overflow:
  "sint (CalculateDelay amd64 (NewRetryOptions\<lparr>Jitter := False\<rparr>) (Finite 0) 36) = 30000000000
   \<and> sint (CalculateDelay amd64 (NewRetryOptions\<lparr>Jitter := False\<rparr>) (Finite 0) 37) = - (2 ^ 63)
   \<and> min (sint (InitialDelay NewRetryOptions) * 2 ^ 37) (sint (MaxDelay NewRetryOptions))
       = 30000000000
   \<and> sint (CalculateDelay amd64
        (NewRetryOptions\<lparr>Jitter := False, Backoff := BackoffLinear\<rparr>) (Finite 0) 92233720368)
       = - 9223372036809551616
   \<and> min (sint (InitialDelay NewRetryOptions) * (92233720368 + 1))
        (sint (MaxDelay NewRetryOptions))
       = 30000000000"
  by code_simp

section \<open>Jitter\<close>

lemma rnd_three_tenths: "rnd (3 / 10) = Finite (5404319552844595 / 18014398509481984)"
  by code_simp

lemma default_fraction: "\<exists>f. rnd (3 / 10) = Finite f \<and> 0 < f \<and> f \<le> 1"
  by (rule exI [of _ "5404319552844595 / 18014398509481984"]) (simp add: rnd_three_tenths)

lemma jitterFractionOf_cases:
  assumes "JitterFraction options \<noteq> NaN"
  shows "\<exists>f. jitterFractionOf options = Finite f \<and> 0 < f \<and> f \<le> 1"
proof -
  obtain f0 where f0: "rnd (3 / 10) = Finite f0" "0 < f0" "f0 \<le> 1"
    using default_fraction by blast
  show ?thesis
  proof (cases "JitterFraction options")
    case (Finite a)
    show ?thesis
    proof (cases "a \<le> 0")
      case True
      with Finite f0 show ?thesis
        by (simp add: jitterFractionOf_def fle_def flt_def Let_def)
    next
      case False
      with Finite show ?thesis
        by (cases "1 < a") (simp_all add: jitterFractionOf_def fle_def flt_def Let_def)
    qed
  next
    case PosInf
    then show ?thesis
      by (simp add: jitterFractionOf_def fle_def flt_def Let_def)
  next
    case NegInf
    with f0 show ?thesis
      by (simp add: jitterFractionOf_def fle_def flt_def Let_def)
  next
    case NaN
    with assms show ?thesis by simp
  qed
qed

lemma roundFinite_between:
  assumes "- roundFinite b \<le> x" and "x \<le> roundFinite b"
  shows "- roundFinite b \<le> roundFinite x \<and> roundFinite x \<le> roundFinite b"
proof -
  from roundFinite_mono [OF assms(2)] have "roundFinite x \<le> roundFinite b"
    by (simp add: roundFinite_idem)
  moreover from roundFinite_mono [OF assms(1)] have "- roundFinite b \<le> roundFinite x"
    by (simp add: roundFinite_minus roundFinite_idem)
  ultimately show ?thesis by simp
qed

lemma le_pow2_trans: "\<bar>x\<bar> \<le> 2 ^ a \<Longrightarrow> a \<le> b \<Longrightarrow> \<bar>x :: rat\<bar> \<le> 2 ^ b"
  by (erule order_trans) (rule power_increasing, simp_all)

lemma jitter_core:
  fixes d f t :: rat
  assumes d: "0 \<le> d" "d \<le> 2 ^ 61" "roundFinite d = d"
    and f: "0 < f" "f \<le> 1"
    and t: "0 \<le> t" "t < 1"
    and j: "j = roundFinite (d * f)"
    and s: "s = roundFinite (roundFinite (roundFinite (t * 2) * j) - j)
          \<or> s = roundFinite (roundFinite (t * 2) * j - j)"
    and v: "v = roundFinite (d + s)"
  shows "0 \<le> j \<and> j \<le> d \<and> \<bar>s\<bar> \<le> j
       \<and> roundFinite (d - j) \<le> v \<and> v \<le> roundFinite (d + j)
       \<and> 0 \<le> roundFinite (d - j) \<and> roundFinite (d + j) \<le> 2 ^ 62
       \<and> \<bar>roundFinite (roundFinite (t * 2) * j)\<bar> \<le> 2 ^ 62
       \<and> \<bar>roundFinite (t * 2)\<bar> \<le> 2 ^ 62"
proof -
  have j0: "0 \<le> j" unfolding j using d f by (intro roundFinite_nonneg) simp
  have "d * f \<le> d" using d f by (simp add: mult_left_le)
  from roundFinite_mono [OF this] have jd: "j \<le> d" by (simp add: j d)
  have jj: "roundFinite j = j" unfolding j by (rule roundFinite_idem)
  define tt where "tt = roundFinite (t * 2)"
  have tt0: "0 \<le> tt" unfolding tt_def using t by (intro roundFinite_nonneg) simp
  have "t * 2 \<le> 2" using t by simp
  from roundFinite_mono [OF this] have tt2: "tt \<le> 2" by (simp add: tt_def)
  have w0: "0 \<le> tt * j" using tt0 j0 by simp
  have w2: "tt * j \<le> 2 * j" using tt2 j0 by (simp add: mult_right_mono)
  have dbl: "roundFinite (2 * j) = 2 * j"
    using roundFinite_double [of j] by (simp add: jj)
  have rw0: "0 \<le> roundFinite (tt * j)" using w0 by (rule roundFinite_nonneg)
  have rw2: "roundFinite (tt * j) \<le> 2 * j"
    using roundFinite_mono [OF w2] by (simp add: dbl)
  have a1: "- roundFinite j \<le> roundFinite (tt * j) - j" "roundFinite (tt * j) - j \<le> roundFinite j"
    using rw0 rw2 by (simp_all add: jj)
  have a2: "- roundFinite j \<le> tt * j - j" "tt * j - j \<le> roundFinite j"
    using w0 w2 by (simp_all add: jj)
  have sb: "- j \<le> s \<and> s \<le> j"
    using s roundFinite_between [OF a1] roundFinite_between [OF a2]
    by (auto simp: jj tt_def)
  then have sabs: "\<bar>s\<bar> \<le> j" by (simp add: abs_le_iff)
  have "d - j \<le> d + s" "d + s \<le> d + j" using sb by simp_all
  from roundFinite_mono [OF this(1)] roundFinite_mono [OF this(2)]
  have vb: "roundFinite (d - j) \<le> v" "v \<le> roundFinite (d + j)" by (simp_all add: v)
  have lo0: "0 \<le> roundFinite (d - j)" using jd by (intro roundFinite_nonneg) simp
  have "d + j \<le> 2 ^ 62" using d jd by simp
  from roundFinite_mono [OF this] have hi: "roundFinite (d + j) \<le> 2 ^ 62"
    unfolding roundFinite_pow2 .
  have "tt * j \<le> 2 * 2 ^ 61" using w2 jd d by simp
  then have "\<bar>tt * j\<bar> \<le> 2 ^ 62" using w0 by simp
  then have wb: "\<bar>roundFinite (tt * j)\<bar> \<le> 2 ^ 62" by (rule roundFinite_abs_le)
  have tb: "\<bar>tt\<bar> \<le> 2 ^ 62" using tt0 tt2 by simp
  show ?thesis
    using j0 jd sabs vb lo0 hi wb tb by (simp add: tt_def)
qed

lemma rnd_by_result: "\<bar>roundFinite x\<bar> \<le> 2 ^ 62 \<Longrightarrow> rnd x = Finite (roundFinite x)"
proof -
  assume "\<bar>roundFinite x\<bar> \<le> 2 ^ 62"
  then have "\<bar>roundFinite x\<bar> \<le> 2 ^ 1023" by (rule le_pow2_trans) simp
  then show ?thesis unfolding rnd_def by (rule overflow_Finite)
qed

lemma durationOfFloat64_small:
  assumes "0 \<le> v" and "v \<le> 2 ^ 62"
  shows "sint (durationOfFloat64 p (Finite v)) = \<lfloor>v\<rfloor>"
proof -
  have t: "truncateRat v = \<lfloor>v\<rfloor>" using assms by (simp add: truncateRat_def)
  have lo: "0 \<le> \<lfloor>v\<rfloor>" using assms by simp
  have "\<lfloor>v\<rfloor> \<le> \<lfloor>2 ^ 62 :: rat\<rfloor>" using assms by (intro floor_mono)
  then have hi: "\<lfloor>v\<rfloor> \<le> 2 ^ 62" by simp
  have r1: "- (2 ^ 63) \<le> \<lfloor>v\<rfloor>" using lo by simp
  have r2: "\<lfloor>v\<rfloor> < 2 ^ 63" using hi by simp
  have "durationOfFloat64 p (Finite v) = word_of_int \<lfloor>v\<rfloor>"
    using r1 r2 by (simp add: durationOfFloat64_def t)
  then show ?thesis using sint_word_of_int_64 [OF r1 r2] by simp
qed

lemma apply_jitter_between:
  assumes dl: "0 \<le> sint delay" "sint delay \<le> 2 ^ 61"
    and u: "u = Finite t" "0 \<le> t" "t < 1"
    and nn: "JitterFraction options \<noteq> NaN"
  shows "0 \<le> sint (applyJitter p options u delay)
     \<and> sint (durationOfFloat64 p
           (fsub (float64OfInt64 delay)
              (fmul (float64OfInt64 delay) (jitterFractionOf options))))
         \<le> sint (applyJitter p options u delay)
     \<and> sint (applyJitter p options u delay)
         \<le> sint (durationOfFloat64 p
           (fadd (float64OfInt64 delay)
              (fmul (float64OfInt64 delay) (jitterFractionOf options))))"
proof -
  obtain f where f: "jitterFractionOf options = Finite f" "0 < f" "f \<le> 1"
    using jitterFractionOf_cases [OF nn] by blast
  define D :: rat where "D = of_int (sint delay)"
  define d where "d = roundFinite D"
  have "of_int 0 \<le> D" unfolding D_def using dl(1) by (simp only: of_int_le_iff)
  then have D0: "0 \<le> D" by simp
  have "D \<le> of_int (2 ^ 61)" unfolding D_def using dl(2) by (simp only: of_int_le_iff)
  then have D1: "D \<le> 2 ^ 61" by simp
  have d0: "0 \<le> d" unfolding d_def using D0 by (rule roundFinite_nonneg)
  have d1: "d \<le> 2 ^ 61"
    using roundFinite_mono [OF D1] unfolding roundFinite_pow2 d_def .
  have dd: "roundFinite d = d" unfolding d_def by (rule roundFinite_idem)
  have "\<bar>roundFinite D\<bar> \<le> 2 ^ 62" using d0 d1 unfolding d_def by simp
  then have fd: "float64OfInt64 delay = Finite d"
    unfolding float64OfInt64_def D_def [symmetric] d_def by (rule rnd_by_result)
  define j where "j = roundFinite (d * f)"
  define tt where "tt = roundFinite (t * 2)"
  define s where "s = (if fusedMulAdd p then roundFinite (tt * j - j)
                       else roundFinite (roundFinite (tt * j) - j))"
  define v where "v = roundFinite (d + s)"
  have s': "s = roundFinite (roundFinite (roundFinite (t * 2) * j) - j)
          \<or> s = roundFinite (roundFinite (t * 2) * j - j)"
    by (simp add: s_def tt_def)
  from jitter_core [OF d0 d1 dd f(2,3) u(2,3) j_def s' v_def]
  have c: "0 \<le> j" "j \<le> d" "\<bar>s\<bar> \<le> j"
    "roundFinite (d - j) \<le> v" "v \<le> roundFinite (d + j)"
    "0 \<le> roundFinite (d - j)" "roundFinite (d + j) \<le> 2 ^ 62"
    "\<bar>roundFinite (tt * j)\<bar> \<le> 2 ^ 62" "\<bar>tt\<bar> \<le> 2 ^ 62"
    by (simp_all add: tt_def)
  have jb: "\<bar>roundFinite (d * f)\<bar> \<le> 2 ^ 62"
    using c(1,2) d1 by (simp add: j_def [symmetric])
  have jr: "fmul (Finite d) (Finite f) = Finite j"
    using rnd_by_result [OF jb] by (simp add: fmul_def j_def)
  have tr: "fmul (Finite t) (Finite 2) = Finite tt"
    using rnd_by_result [of "t * 2"] c(9) by (simp add: fmul_def tt_def)
  have sb: "\<bar>s\<bar> \<le> 2 ^ 62" using c(2,3) d1 by simp
  have wr: "fmul (Finite tt) (Finite j) = Finite (roundFinite (tt * j))"
    using rnd_by_result [OF c(8)] by (simp add: fmul_def)
  have rj: "(if fusedMulAdd p
             then fma (fmul u (Finite 2)) (Finite j) (fneg (Finite j))
             else fsub (fmul (fmul u (Finite 2)) (Finite j)) (Finite j)) = Finite s"
  proof (cases "fusedMulAdd p")
    case True
    then have "\<bar>roundFinite (tt * j + - j)\<bar> \<le> 2 ^ 62" using sb by (simp add: s_def)
    from rnd_by_result [OF this] True show ?thesis
      by (simp add: u(1) tr fma_def fneg_def s_def)
  next
    case False
    then have "\<bar>roundFinite (roundFinite (tt * j) + - j)\<bar> \<le> 2 ^ 62"
      using sb by (simp add: s_def)
    from rnd_by_result [OF this] False show ?thesis
      by (simp add: u(1) tr wr fsub_def fadd_def fneg_def s_def)
  qed
  have v0: "0 \<le> v" using c(4,6) by simp
  have v1: "v \<le> 2 ^ 62" using c(5,7) by simp
  have "\<bar>roundFinite (d + s)\<bar> \<le> 2 ^ 62" using v0 v1 by (simp add: v_def)
  from rnd_by_result [OF this]
  have nd: "fadd (Finite d) (Finite s) = Finite v" by (simp add: fadd_def v_def)
  have res: "applyJitter p options u delay = durationOfFloat64 p (Finite v)"
    unfolding applyJitter_def Let_def fd f(1) jr rj nd
    using v0 by (simp add: flt_def)
  have rv: "sint (applyJitter p options u delay) = \<lfloor>v\<rfloor>"
    unfolding res using v0 v1 by (rule durationOfFloat64_small)
  have lo1: "roundFinite (d - j) \<le> 2 ^ 62" using c(4) v1 by simp
  have "\<bar>roundFinite (d + - j)\<bar> \<le> 2 ^ 62" using c(6) lo1 by simp
  from rnd_by_result [OF this]
  have "fsub (Finite d) (Finite j) = Finite (roundFinite (d - j))"
    by (simp add: fsub_def fadd_def fneg_def)
  then have rlo: "sint (durationOfFloat64 p (fsub (float64OfInt64 delay)
              (fmul (float64OfInt64 delay) (jitterFractionOf options))))
        = \<lfloor>roundFinite (d - j)\<rfloor>"
    using durationOfFloat64_small [OF c(6) lo1] by (simp add: fd f(1) jr)
  have hi0: "0 \<le> roundFinite (d + j)" using c(5) v0 by simp
  have "\<bar>roundFinite (d + j)\<bar> \<le> 2 ^ 62" using c(7) hi0 by simp
  from rnd_by_result [OF this]
  have "fadd (Finite d) (Finite j) = Finite (roundFinite (d + j))"
    by (simp add: fadd_def)
  then have rhi: "sint (durationOfFloat64 p (fadd (float64OfInt64 delay)
              (fmul (float64OfInt64 delay) (jitterFractionOf options))))
        = \<lfloor>roundFinite (d + j)\<rfloor>"
    using durationOfFloat64_small [OF hi0 c(7)] by (simp add: fd f(1) jr)
  show ?thesis
    unfolding rv rlo rhi using v0 c(4,5) by (simp add: floor_mono)
qed

lemma jitterFractionOf_eq:
  "jitterFractionOf options =
     (if fle (JitterFraction options) (Finite 0) then rnd (3 / 10)
      else if flt (Finite 1) (JitterFraction options) then Finite 1
      else JitterFraction options)"
  by (simp add: jitterFractionOf_def Let_def rnd_three_tenths flt_def)

text \<open>
  C6, as amended. For a base delay from 0 to \<open>2\<^sup>6\<^sup>1\<close> nanoseconds, a draw \<open>t\<close> with
  \<open>0 \<le> t < 1\<close> and a configured fraction that is not NaN, the delay that
  \<open>applyJitter\<close> returns is not negative and lies between \<open>delay - delay \<cdot> fraction\<close>
  and \<open>delay + delay \<cdot> fraction\<close>, both computed in \<open>float64\<close> and truncated to
  whole nanoseconds as the result is; the fraction is the configured one, replaced by
  0.3 when it is at most 0 and by 1 when it is above 1. This holds whether or not the
  implementation fuses the multiplication and the subtraction.
\<close>

theorem apply_jitter_range:
  "0 \<le> sint delay \<and> sint delay \<le> 2 ^ 61 \<and> 0 \<le> t \<and> t < 1
     \<and> JitterFraction options \<noteq> NaN \<longrightarrow>
   0 \<le> sint (applyJitter p options (Finite t) delay)
   \<and> sint (durationOfFloat64 p
         (fsub (float64OfInt64 delay)
            (fmul (float64OfInt64 delay) (jitterFractionOf options))))
       \<le> sint (applyJitter p options (Finite t) delay)
   \<and> sint (applyJitter p options (Finite t) delay)
       \<le> sint (durationOfFloat64 p
         (fadd (float64OfInt64 delay)
            (fmul (float64OfInt64 delay) (jitterFractionOf options))))
   \<and> jitterFractionOf options =
       (if fle (JitterFraction options) (Finite 0) then rnd (3 / 10)
        else if flt (Finite 1) (JitterFraction options) then Finite 1
        else JitterFraction options)"
proof
  assume h: "0 \<le> sint delay \<and> sint delay \<le> 2 ^ 61 \<and> 0 \<le> t \<and> t < 1
     \<and> JitterFraction options \<noteq> NaN"
  then have "0 \<le> sint delay" "sint delay \<le> 2 ^ 61" "Finite t = Finite t" "0 \<le> t" "t < 1"
    "JitterFraction options \<noteq> NaN" by simp_all
  from apply_jitter_between [OF this, of p] jitterFractionOf_eq [of options]
  show "0 \<le> sint (applyJitter p options (Finite t) delay)
   \<and> sint (durationOfFloat64 p
         (fsub (float64OfInt64 delay)
            (fmul (float64OfInt64 delay) (jitterFractionOf options))))
       \<le> sint (applyJitter p options (Finite t) delay)
   \<and> sint (applyJitter p options (Finite t) delay)
       \<le> sint (durationOfFloat64 p
         (fadd (float64OfInt64 delay)
            (fmul (float64OfInt64 delay) (jitterFractionOf options))))
   \<and> jitterFractionOf options =
       (if fle (JitterFraction options) (Finite 0) then rnd (3 / 10)
        else if flt (Finite 1) (JitterFraction options) then Finite 1
        else JitterFraction options)"
    by blast
qed

theorem apply_jitter_range_witness:
  "0 \<le> sint (applyJitter amd64 NewRetryOptions (Finite (1 / 4)) 1000000000)
   \<and> 700000000 \<le> sint (applyJitter amd64 NewRetryOptions (Finite (1 / 4)) 1000000000)
   \<and> sint (applyJitter amd64 NewRetryOptions (Finite (1 / 4)) 1000000000) \<le> 1300000000"
proof -
  have lo: "sint (durationOfFloat64 amd64
         (fsub (float64OfInt64 1000000000)
            (fmul (float64OfInt64 1000000000) (jitterFractionOf NewRetryOptions))))
      = 700000000"
    by code_simp
  have hi: "sint (durationOfFloat64 amd64
         (fadd (float64OfInt64 1000000000)
            (fmul (float64OfInt64 1000000000) (jitterFractionOf NewRetryOptions))))
      = 1300000000"
    by code_simp
  have hyp: "0 \<le> sint (1000000000 :: Duration) \<and> sint (1000000000 :: Duration) \<le> 2 ^ 61
      \<and> (0::rat) \<le> 1 / 4 \<and> (1::rat) / 4 < 1 \<and> JitterFraction NewRetryOptions \<noteq> NaN"
    by (simp add: NewRetryOptions_def rnd_three_tenths)
  from apply_jitter_range [of 1000000000 "1 / 4" NewRetryOptions amd64] hyp
  show ?thesis unfolding lo hi by blast
qed

text \<open>
  The result is truncated to whole nanoseconds: with a base delay of 5 ns, the fraction
  \<open>1/2\<close> and the draw 0 the result is 2 ns, below \<open>5 \<cdot> (1 - 1/2)\<close>. For a negative
  base delay the result is clamped to 0, above \<open>delay \<cdot> (1 + fraction)\<close>.
\<close>

theorem apply_jitter_outside_interval_counterexample:
  "jitterFractionOf (NewRetryOptions\<lparr>JitterFraction := Finite (1 / 2)\<rparr>) = Finite (1 / 2)
   \<and> sint (applyJitter amd64 (NewRetryOptions\<lparr>JitterFraction := Finite (1 / 2)\<rparr>)
        (Finite 0) 5) = 2
   \<and> \<not> ((5 :: rat) * (1 - 1 / 2) \<le> 2)
   \<and> sint (applyJitter amd64 (NewRetryOptions\<lparr>JitterFraction := Finite (1 / 2)\<rparr>)
        (Finite 0) (- 10)) = 0
   \<and> \<not> ((0 :: rat) \<le> (- 10) * (1 + 1 / 2))"
  by code_simp

text \<open>
  Outside these bounds the result rests on a conversion that the language leaves to the
  implementation: with a NaN fraction, or with a delay so large that the jittered value
  passes the range of \<open>int64\<close>, the delay returned on amd64 is negative.
\<close>

lemma apply_jitter_invalid_conversion:
  "sint (applyJitter amd64 (NewRetryOptions\<lparr>JitterFraction := NaN\<rparr>) (Finite 0) 1000)
     = - (2 ^ 63)
   \<and> sint (applyJitter amd64 (NewRetryOptions\<lparr>JitterFraction := Finite 1\<rparr>)
        (Finite (3 / 4)) (2 ^ 63 - 1)) = - (2 ^ 63)"
  by code_simp

end
